theory Spec2Isabelle
  imports Main
begin

section \<open>Data model\<close>

text \<open>
  Modelled from the spec: the declarations of \<open>src/types.ts\<close> (\<open>WorkflowStatus\<close>,
  \<open>WorkItem\<close>, \<open>SystemLog\<close>, \<open>ServiceConfig\<close>, \<open>AppSettings\<close>, \<open>ProcessingStats\<close>) are
  not among the sources. The five statuses are those of the spec (section 3); the fields of
  the records are the ones \<open>App.tsx\<close>, the service module and the components read and write.
  A field that the code reads with \<open>||\<close>, \<open>?.\<close> or writes as \<open>undefined\<close> is an \<open>option\<close>
  (\<open>None\<close> is \<open>undefined\<close>).
\<close>

datatype WorkflowStatus = PENDING | ANALYZING | GENERATING | COMPLETED | ERROR

text \<open>The browser's \<open>File\<close>: the engine reads its \<open>name\<close> and \<open>type\<close>; the bytes stay opaque.\<close>

record File =
  file_name :: string
  file_type :: string

text \<open>
  Modelled from the spec: \<open>WorkItem\<close> of the absent \<open>src/types.ts\<close>. The fields \<open>id\<close> and
  \<open>file\<close> are \<open>item_id\<close> and \<open>item_file\<close> here (\<open>id\<close> is HOL's identity function, and
  the other name is reserved).
\<close>

record WorkItem =
  item_id :: string
  item_file :: File
  previewUrl :: string
  status :: WorkflowStatus
  progressLog :: "string list"
  originalPrompt :: "string option"
  generatedImageUrl :: "string option"
  error :: "string option"

text \<open>
  \<open>Partial<WorkItem>\<close>, for the keys the code passes to \<open>updateItem\<close>: \<open>None\<close> is a key
  that the object literal does not have, \<open>Some v\<close> a key it has; for an optional field
  \<open>Some None\<close> is the key written as \<open>undefined\<close>.
\<close>

record WorkItemPartial =
  p_status :: "WorkflowStatus option"
  p_originalPrompt :: "string option option"
  p_generatedImageUrl :: "string option option"
  p_error :: "string option option"
  p_progressLog :: "string list option"

definition noUpdates :: WorkItemPartial where
  "noUpdates = \<lparr>p_status = None, p_originalPrompt = None, p_generatedImageUrl = None,
     p_error = None, p_progressLog = None\<rparr>"

text \<open>
  A value that a \<open>catch\<close> receives: an \<open>Error\<close> object with its message, or a value with no
  \<open>message\<close> property (the \<open>ProgressEvent\<close> that \<open>FileReader.onerror\<close> rejects with).
\<close>

datatype js_thrown = Error string | NotAnError

fun thrown_message :: "js_thrown \<Rightarrow> string option" where
  "thrown_message (Error m) = Some m"
| "thrown_message NotAnError = None"

text \<open>\<open>a || b\<close> on an optional string: \<open>undefined\<close> and the empty string are falsy.\<close>

fun or_else :: "string option \<Rightarrow> string \<Rightarrow> string" where
  "or_else None d = d"
| "or_else (Some v) d = (if v = [] then d else v)"

text \<open>Modelled from the spec: \<open>SystemLog\<close> of the absent \<open>src/types.ts\<close> (severity \<open>info | success | warning | error\<close>).\<close>

datatype LogType = LogInfo | LogSuccess | LogWarning | LogError

record SystemLog =
  log_id :: string
  timestamp :: nat
  log_type :: LogType
  message :: string
  details :: "js_thrown option"

text \<open>Modelled from the spec: \<open>ServiceConfig\<close> and \<open>AppSettings\<close> of the absent \<open>src/types.ts\<close>.\<close>

record ServiceConfig =
  apiKey :: "string option"
  baseUrl :: "string option"
  model :: "string option"
  systemInstruction :: "string option"
  aspectRatio :: "string option"

record AppSettings =
  analysisConfig :: ServiceConfig
  generationConfig :: ServiceConfig

definition DEFAULT_SETTINGS :: AppSettings where
  "DEFAULT_SETTINGS = \<lparr>
     analysisConfig = \<lparr>apiKey = Some [], baseUrl = Some [],
       model = Some ''gemini-3-flash-preview'',
       systemInstruction = Some ''Analyze the image and write a high-quality stable diffusion style prompt (tags or natural language) to recreate it. Focus on subject, medium, lighting, and style.'',
       aspectRatio = None\<rparr>,
     generationConfig = \<lparr>apiKey = Some [], baseUrl = Some [],
       model = Some ''gemini-3-pro-image-preview'',
       systemInstruction = Some ''Generate a high-fidelity image based on the provided description.'',
       aspectRatio = Some ''16:9''\<rparr>\<rparr>"

section \<open>The environment\<close>

text \<open>
  \<open>Math.random\<close>, \<open>URL.createObjectURL\<close> and \<open>new Date()\<close> are answered by the browser.
  The model takes the successive answers as three sequences and counts the calls made so
  far in the state, so that every operation is a function.
\<close>

record World =
  randomId :: "nat \<Rightarrow> string"
  objectURL :: "nat \<Rightarrow> string"
  now :: "nat \<Rightarrow> nat"

text \<open>
  A call of \<open>processQueue\<close> that is suspended at one of its three \<open>await\<close>s, with what its
  closure holds: \<open>currentItem\<close>, and the \<open>description\<close> once the analysis has returned.
\<close>

datatype Suspended =
    AwaitingAnalysis WorkItem
  | AwaitingGeneration WorkItem string
  | AwaitingDelay

text \<open>
  The component's state: the \<open>useState\<close> cells \<open>items\<close>, \<open>logs\<close>, \<open>isProcessing\<close>,
  \<open>settings\<close>, the ref \<open>isProcessingRef\<close>, the suspended calls of \<open>processQueue\<close> by the
  number of the call, and the call counters of the environment. The refs \<open>itemsRef\<close> and
  \<open>settingsRef\<close> are kept equal to \<open>items\<close> and \<open>settings\<close> by the two \<open>useEffect\<close>s
  (lines 44-50); the model reads \<open>items\<close> and \<open>settings\<close> where the code reads the refs,
  that is, every read of a ref sees the last committed state.
\<close>

record AppState =
  items :: "WorkItem list"
  logs :: "SystemLog list"
  isProcessing :: bool
  isProcessingRef :: bool
  settings :: AppSettings
  tasks :: "nat \<Rightarrow> Suspended option"
  nextTask :: nat
  idCalls :: nat
  urlCalls :: nat
  dateCalls :: nat

definition initialState :: AppState where
  "initialState = \<lparr>items = [], logs = [], isProcessing = False, isProcessingRef = False,
     settings = DEFAULT_SETTINGS, tasks = (\<lambda>_. None), nextTask = 0,
     idCalls = 0, urlCalls = 0, dateCalls = 0\<rparr>"

section \<open>Store and log operations (\<open>App.tsx\<close>, lines 52-100 and 206-234)\<close>

text \<open>Decimal digits of a number, for the template strings.\<close>

fun show_nat :: "nat \<Rightarrow> string" where
  "show_nat n = (if n < 10 then [''0123456789'' ! n]
                 else show_nat (n div 10) @ [''0123456789'' ! (n mod 10)])"

declare show_nat.simps [simp del]

text \<open>\<open>addLog\<close>: a record with a fresh id and the current time, appended.\<close>

definition addLog :: "World \<Rightarrow> LogType \<Rightarrow> string \<Rightarrow> js_thrown option \<Rightarrow> AppState \<Rightarrow> AppState" where
  "addLog w ty msg det s =
     s\<lparr>logs := logs s @ [\<lparr>log_id = randomId w (idCalls s), timestamp = now w (dateCalls s),
                            log_type = ty, message = msg, details = det\<rparr>],
       idCalls := Suc (idCalls s), dateCalls := Suc (dateCalls s)\<rparr>"

text \<open>The item that \<open>files.map\<close> builds for the \<open>k\<close>-th file of a call.\<close>

definition newItem :: "World \<Rightarrow> AppState \<Rightarrow> nat \<Rightarrow> File \<Rightarrow> WorkItem" where
  "newItem w s k f =
     \<lparr>item_id = randomId w (idCalls s + k), item_file = f,
      previewUrl = objectURL w (urlCalls s + k), status = PENDING,
      progressLog = [''Queued for processing...''], originalPrompt = None,
      generatedImageUrl = None, error = None\<rparr>"

definition handleFilesSelected :: "World \<Rightarrow> File list \<Rightarrow> AppState \<Rightarrow> AppState" where
  "handleFilesSelected w files s =
     (let newItems = map (\<lambda>(k, f). newItem w s k f) (enumerate 0 files) in
      addLog w LogInfo (''Added '' @ show_nat (length files) @ '' files to queue.'') None
        (s\<lparr>items := items s @ newItems,
           idCalls := idCalls s + length files,
           urlCalls := urlCalls s + length files\<rparr>))"

text \<open>\<open>{ ...item, ...updates }\<close>: the keys of \<open>updates\<close> win, the others are kept.\<close>

definition merge :: "WorkItem \<Rightarrow> WorkItemPartial \<Rightarrow> WorkItem" where
  "merge item u =
     item\<lparr>status := (case p_status u of None \<Rightarrow> status item | Some v \<Rightarrow> v),
          originalPrompt := (case p_originalPrompt u of None \<Rightarrow> originalPrompt item | Some v \<Rightarrow> v),
          generatedImageUrl :=
            (case p_generatedImageUrl u of None \<Rightarrow> generatedImageUrl item | Some v \<Rightarrow> v),
          error := (case p_error u of None \<Rightarrow> error item | Some v \<Rightarrow> v),
          progressLog := (case p_progressLog u of None \<Rightarrow> progressLog item | Some v \<Rightarrow> v)\<rparr>"

definition updateItem :: "string \<Rightarrow> WorkItemPartial \<Rightarrow> AppState \<Rightarrow> AppState" where
  "updateItem i u s =
     s\<lparr>items := map (\<lambda>item. if item_id item = i then merge item u else item) (items s)\<rparr>"

definition handleRemoveItem :: "string \<Rightarrow> AppState \<Rightarrow> AppState" where
  "handleRemoveItem i s = s\<lparr>items := filter (\<lambda>item. item_id item \<noteq> i) (items s)\<rparr>"

definition handleRetryItem :: "World \<Rightarrow> string \<Rightarrow> AppState \<Rightarrow> AppState" where
  "handleRetryItem w i s =
     addLog w LogInfo (''Retrying item '' @ i) None
       (updateItem i
          (noUpdates\<lparr>p_status := Some PENDING, p_error := Some None,
             p_generatedImageUrl := Some None, p_originalPrompt := Some None,
             p_progressLog := Some [''Retrying...'']\<rparr>) s)"

definition handleAspectRatioChange :: "World \<Rightarrow> string \<Rightarrow> AppState \<Rightarrow> AppState" where
  "handleAspectRatioChange w newRatio s =
     addLog w LogInfo (''Aspect Ratio changed to '' @ newRatio) None
       (s\<lparr>settings := (settings s)\<lparr>generationConfig :=
            (generationConfig (settings s))\<lparr>aspectRatio := Some newRatio\<rparr>\<rparr>\<rparr>)"

text \<open>The \<open>onSave\<close> handler of the settings dialog (lines 253-257).\<close>

definition saveSettings :: "World \<Rightarrow> AppSettings \<Rightarrow> AppState \<Rightarrow> AppState" where
  "saveSettings w newSettings s =
     addLog w LogInfo ''Settings updated.'' None (s\<lparr>settings := newSettings\<rparr>)"

definition stopProcessing :: "World \<Rightarrow> AppState \<Rightarrow> AppState" where
  "stopProcessing w s =
     addLog w LogWarning ''Processing stopped by user.'' None
       (s\<lparr>isProcessingRef := False, isProcessing := False\<rparr>)"

definition clearCompleted :: "World \<Rightarrow> AppState \<Rightarrow> AppState" where
  "clearCompleted w s =
     (if isProcessing s then s
      else addLog w LogInfo ''Cleared completed/error items.'' None
             (s\<lparr>items := filter (\<lambda>item. status item \<noteq> COMPLETED \<and> status item \<noteq> ERROR)
                             (items s)\<rparr>))"

definition resetAll :: "World \<Rightarrow> AppState \<Rightarrow> AppState" where
  "resetAll w s =
     (if isProcessing s then s
      else addLog w LogWarning ''All items reset.'' None (s\<lparr>items := []\<rparr>))"

text \<open>Modelled from the spec: \<open>ProcessingStats\<close> of the absent \<open>src/types.ts\<close>; the fold is lines 225-234.\<close>

record ProcessingStats =
  total :: nat
  completed :: nat
  failed :: nat
  pending :: nat

definition stats_step :: "ProcessingStats \<Rightarrow> WorkItem \<Rightarrow> ProcessingStats" where
  "stats_step acc item =
     acc\<lparr>total := Suc (total acc),
         completed := (if status item = COMPLETED then Suc (completed acc) else completed acc),
         failed := (if status item = ERROR then Suc (failed acc) else failed acc),
         pending := (if status item = PENDING then Suc (pending acc) else pending acc)\<rparr>"

definition stats :: "AppState \<Rightarrow> ProcessingStats" where
  "stats s = foldl stats_step \<lparr>total = 0, completed = 0, failed = 0, pending = 0\<rparr> (items s)"

text \<open>\<open>Array.prototype.findIndex\<close>; \<open>None\<close> is the result \<open>-1\<close>.\<close>

fun findIndex :: "('a \<Rightarrow> bool) \<Rightarrow> 'a list \<Rightarrow> nat option" where
  "findIndex P [] = None"
| "findIndex P (x # xs) = (if P x then Some 0 else map_option Suc (findIndex P xs))"

definition isPending :: "WorkItem \<Rightarrow> bool" where
  "isPending item = (status item = PENDING)"

section \<open>The driver loop (\<open>App.tsx\<close>, \<open>processQueue\<close>, lines 136-204)\<close>

text \<open>
  \<open>processQueue\<close> is an \<open>async\<close> function: it runs until an \<open>await\<close>, and is resumed when
  the awaited promise settles; between the two, the browser runs click handlers and the
  callbacks of other promises. The model cuts the function at its three \<open>await\<close>s. Each
  piece below is the code that runs without interruption; a suspended call is an entry of
  \<open>tasks\<close>.
\<close>

text \<open>The \<open>finally\<close> block (lines 199-203); the call is over.\<close>

definition finishQueue :: "World \<Rightarrow> nat \<Rightarrow> AppState \<Rightarrow> AppState" where
  "finishQueue w h s =
     addLog w LogInfo ''Queue processing finished or stopped.'' None
       (s\<lparr>isProcessingRef := False, isProcessing := False, tasks := (tasks s)(h := None)\<rparr>)"

text \<open>Lines 148-163: the loop body up to the \<open>await\<close> of \<open>describeImage\<close>.\<close>

definition beginItem :: "World \<Rightarrow> nat \<Rightarrow> WorkItem \<Rightarrow> AppState \<Rightarrow> AppState" where
  "beginItem w h currentItem s =
     (let s1 = addLog w LogInfo
                 (''Processing Item: '' @ file_name (item_file currentItem) @ '' ('' @
                    item_id currentItem @ '')'') None s;
          s2 = updateItem (item_id currentItem)
                 (noUpdates\<lparr>p_status := Some ANALYZING, p_originalPrompt := Some (Some [])\<rparr>) s1;
          s3 = addLog w LogInfo ''[Step 1] Sending to Vision API...'' None s2
      in s3\<lparr>tasks := (tasks s3)(h \<mapsto> AwaitingAnalysis currentItem)\<rparr>)"

text \<open>
  The \<open>findIndex\<close> (lines 143-145 and 195-197) followed by the loop test of line 147:
  the body starts for the first \<open>PENDING\<close> item if there is one and the ref is still set.
\<close>

definition loopHead :: "World \<Rightarrow> nat \<Rightarrow> AppState \<Rightarrow> AppState" where
  "loopHead w h s =
     (case findIndex isPending (items s) of
        None \<Rightarrow> finishQueue w h s
      | Some currentIndex \<Rightarrow>
          if isProcessingRef s then beginItem w h (items s ! currentIndex) s
          else finishQueue w h s)"

text \<open>Lines 137-145: the call itself; \<open>nextTask\<close> numbers the calls that got past the guard.\<close>

definition processQueue :: "World \<Rightarrow> AppState \<Rightarrow> AppState" where
  "processQueue w s =
     (if isProcessingRef s then s
      else loopHead w (nextTask s)
             (addLog w LogInfo ''Queue processing started.'' None
                (s\<lparr>isProcessingRef := True, isProcessing := True, nextTask := Suc (nextTask s)\<rparr>)))"

text \<open>The callback handed to \<open>describeImage\<close> (lines 160-162).\<close>

definition onStreamUpdate :: "nat \<Rightarrow> string \<Rightarrow> AppState \<Rightarrow> AppState" where
  "onStreamUpdate h partialText s =
     (case tasks s h of
        Some (AwaitingAnalysis currentItem) \<Rightarrow>
          updateItem (item_id currentItem)
            (noUpdates\<lparr>p_originalPrompt := Some (Some partialText)\<rparr>) s
      | _ \<Rightarrow> s)"

text \<open>The \<open>catch\<close> block (lines 182-191), up to the \<open>await delay(500)\<close>.\<close>

definition catchBlock :: "World \<Rightarrow> nat \<Rightarrow> WorkItem \<Rightarrow> js_thrown \<Rightarrow> AppState \<Rightarrow> AppState" where
  "catchBlock w h currentItem err s =
     (let errorMsg = or_else (thrown_message err) ''Unknown error occurred'';
          s1 = addLog w LogError
                 (''Failed processing '' @ file_name (item_file currentItem) @ '': '' @ errorMsg)
                 (Some err) s;
          s2 = updateItem (item_id currentItem)
                 (noUpdates\<lparr>p_status := Some ERROR, p_error := Some (Some errorMsg)\<rparr>) s1
      in s2\<lparr>tasks := (tasks s2)(h \<mapsto> AwaitingDelay)\<rparr>)"

text \<open>
  \<open>describeImage\<close> has settled: with a description (lines 165-173, up to the \<open>await\<close> of
  \<open>generateVariation\<close>) or with a rejection (the \<open>catch\<close> block).
\<close>

definition analysisSettled :: "World \<Rightarrow> nat \<Rightarrow> js_thrown + string \<Rightarrow> AppState \<Rightarrow> AppState" where
  "analysisSettled w h r s =
     (case tasks s h of
        Some (AwaitingAnalysis currentItem) \<Rightarrow>
          (case r of
             Inl err \<Rightarrow> catchBlock w h currentItem err s
           | Inr description \<Rightarrow>
               (let s1 = updateItem (item_id currentItem)
                           (noUpdates\<lparr>p_originalPrompt := Some (Some description)\<rparr>) s;
                    s2 = addLog w LogSuccess ''[Step 1] Analysis complete.'' None s1;
                    s3 = updateItem (item_id currentItem)
                           (noUpdates\<lparr>p_status := Some GENERATING\<rparr>) s2;
                    s4 = addLog w LogInfo
                           (''[Step 2] Sending to Image Gen API (Ratio: '' @
                              or_else (aspectRatio (generationConfig (settings s3))) ''Default'' @
                              '')...'') None s3
                in s4\<lparr>tasks := (tasks s4)(h \<mapsto> AwaitingGeneration currentItem description)\<rparr>))
      | _ \<Rightarrow> s)"

text \<open>\<open>generateVariation\<close> has settled (lines 176-180, or the \<open>catch\<close> block).\<close>

definition generationSettled :: "World \<Rightarrow> nat \<Rightarrow> js_thrown + string \<Rightarrow> AppState \<Rightarrow> AppState" where
  "generationSettled w h r s =
     (case tasks s h of
        Some (AwaitingGeneration currentItem description) \<Rightarrow>
          (case r of
             Inl err \<Rightarrow> catchBlock w h currentItem err s
           | Inr generatedImage \<Rightarrow>
               (let s1 = updateItem (item_id currentItem)
                           (noUpdates\<lparr>p_status := Some COMPLETED,
                              p_generatedImageUrl := Some (Some generatedImage)\<rparr>) s;
                    s2 = addLog w LogSuccess ''[Step 2] Image generation successful.'' None s1
                in s2\<lparr>tasks := (tasks s2)(h \<mapsto> AwaitingDelay)\<rparr>))
      | _ \<Rightarrow> s)"

text \<open>\<open>delay(500)\<close> has elapsed (lines 195-198): the next \<open>findIndex\<close> and the loop test.\<close>

definition delayElapsed :: "World \<Rightarrow> nat \<Rightarrow> AppState \<Rightarrow> AppState" where
  "delayElapsed w h s =
     (case tasks s h of
        Some AwaitingDelay \<Rightarrow> loopHead w h s
      | _ \<Rightarrow> s)"

section \<open>What the view offers (\<open>App.tsx\<close>, lines 236-446; \<open>FlowCanvasItem.tsx\<close>, lines 51-70)\<close>

text \<open>
  Everything that can happen to the component: a click on a control that the view renders
  enabled, or the settling of a promise that a suspended call awaits. The batch download,
  the preview and the two dialogs' visibility change neither the store nor the driver and
  are left out; \<open>LogsCleared\<close> is the \<open>onClear\<close> of the debug console (line 264).
\<close>

datatype Event =
    FilesSelected "File list"
  | RetryClicked string
  | RemoveClicked string
  | ResetAllClicked
  | ClearCompletedClicked
  | ExecuteClicked
  | StopClicked
  | SettingsSaved AppSettings
  | AspectRatioChanged string
  | LogsCleared
  | StreamUpdate nat string
  | AnalysisSettled nat "js_thrown + string"
  | GenerationSettled nat "js_thrown + string"
  | DelayElapsed nat

text \<open>
  \<open>FlowCanvasItem\<close> renders the retry button only for an item in \<open>ERROR\<close> (line 53) and the
  remove button for every item (line 62).
\<close>

definition showsRetry :: "WorkItem \<Rightarrow> bool" where
  "showsRetry item = (status item = ERROR)"

definition showsRemove :: "WorkItem \<Rightarrow> bool" where
  "showsRemove item = True"

text \<open>
  The footer is rendered when there are items; \<open>Reset All\<close> and \<open>Clear Completed\<close> are
  disabled while \<open>isProcessing\<close>; the execute button stands in for the stop button while
  \<open>isProcessing\<close> is false and is disabled when nothing is pending. A promise can settle
  only for a call that awaits it.
\<close>

fun offered :: "Event \<Rightarrow> AppState \<Rightarrow> bool" where
  "offered (FilesSelected files) s = True"
| "offered (RetryClicked i) s = (\<exists>item \<in> set (items s). item_id item = i \<and> showsRetry item)"
| "offered (RemoveClicked i) s = (\<exists>item \<in> set (items s). item_id item = i \<and> showsRemove item)"
| "offered ResetAllClicked s = (items s \<noteq> [] \<and> \<not> isProcessing s)"
| "offered ClearCompletedClicked s = (items s \<noteq> [] \<and> \<not> isProcessing s)"
| "offered ExecuteClicked s = (items s \<noteq> [] \<and> \<not> isProcessing s \<and> pending (stats s) \<noteq> 0)"
| "offered StopClicked s = (items s \<noteq> [] \<and> isProcessing s)"
| "offered (SettingsSaved newSettings) s = True"
| "offered (AspectRatioChanged newRatio) s = True"
| "offered LogsCleared s = True"
| "offered (StreamUpdate h partialText) s =
     (case tasks s h of Some (AwaitingAnalysis _) \<Rightarrow> True | _ \<Rightarrow> False)"
| "offered (AnalysisSettled h r) s =
     (case tasks s h of Some (AwaitingAnalysis _) \<Rightarrow> True | _ \<Rightarrow> False)"
| "offered (GenerationSettled h r) s =
     (case tasks s h of Some (AwaitingGeneration _ _) \<Rightarrow> True | _ \<Rightarrow> False)"
| "offered (DelayElapsed h) s =
     (case tasks s h of Some AwaitingDelay \<Rightarrow> True | _ \<Rightarrow> False)"

fun fire :: "World \<Rightarrow> Event \<Rightarrow> AppState \<Rightarrow> AppState" where
  "fire w (FilesSelected files) s = handleFilesSelected w files s"
| "fire w (RetryClicked i) s = handleRetryItem w i s"
| "fire w (RemoveClicked i) s = handleRemoveItem i s"
| "fire w ResetAllClicked s = resetAll w s"
| "fire w ClearCompletedClicked s = clearCompleted w s"
| "fire w ExecuteClicked s = processQueue w s"
| "fire w StopClicked s = stopProcessing w s"
| "fire w (SettingsSaved newSettings) s = saveSettings w newSettings s"
| "fire w (AspectRatioChanged newRatio) s = handleAspectRatioChange w newRatio s"
| "fire w LogsCleared s = s\<lparr>logs := []\<rparr>"
| "fire w (StreamUpdate h partialText) s = onStreamUpdate h partialText s"
| "fire w (AnalysisSettled h r) s = analysisSettled w h r s"
| "fire w (GenerationSettled h r) s = generationSettled w h r s"
| "fire w (DelayElapsed h) s = delayElapsed w h s"

definition step :: "World \<Rightarrow> AppState \<Rightarrow> Event \<Rightarrow> AppState" where
  "step w s e = (if offered e s then fire w e s else s)"

definition run :: "World \<Rightarrow> AppState \<Rightarrow> Event list \<Rightarrow> AppState" where
  "run w s es = foldl (step w) s es"

text \<open>
  The engine is running while a call of \<open>processQueue\<close> has not returned: it is suspended
  at one of its \<open>await\<close>s.
\<close>

definition driverInFlight :: "AppState \<Rightarrow> bool" where
  "driverInFlight s = (\<exists>h. tasks s h \<noteq> None)"

section \<open>The stage clients (\<open>services/utils.ts\<close> and the service module that follows it)\<close>

text \<open>
  The two stage clients are code of this repository; what they talk to is not: the
  environment variables, the \<open>FileReader\<close>, the Gemini SDK, \<open>fetch\<close> and the JSON functions
  of the runtime. Each of these is a parameter of the model, and every way it can behave
  is a value: a promise can be fulfilled, be rejected, or never settle.
\<close>

datatype 'a promise = Fulfilled 'a | Rejected js_thrown | Unsettled

text \<open>
  \<open>import.meta.env\<close> and \<open>process.env\<close>, each \<open>None\<close> when the object does not exist, and the
  error with which the runtime rejects an aborted \<open>fetch\<close>.
\<close>

record Env =
  metaEnv :: "(string \<Rightarrow> string option) option"
  processEnv :: "(string \<Rightarrow> string option) option"
  abortError :: js_thrown

text \<open>The truth value of an optional string in a condition.\<close>

fun truthy :: "string option \<Rightarrow> bool" where
  "truthy None = False"
| "truthy (Some v) = (v \<noteq> [])"

text \<open>A credential that is absent or empty.\<close>

definition absentOrEmpty :: "string option \<Rightarrow> bool" where
  "absentOrEmpty v = (v = None \<or> v = Some [])"

text \<open>\<open>getEnv\<close> (\<open>utils.ts\<close>, lines 25-37).\<close>

definition getEnv :: "Env \<Rightarrow> string \<Rightarrow> string" where
  "getEnv env key =
     (let viteValue = (case metaEnv env of None \<Rightarrow> None | Some m \<Rightarrow> m (''VITE_'' @ key));
          nodeValue = (case processEnv env of None \<Rightarrow> None | Some m \<Rightarrow> m key)
      in if truthy viteValue then the viteValue
         else if truthy nodeValue then or_else nodeValue []
         else [])"

text \<open>
  \<open>String.prototype.trim\<close>, for the white space and line terminators of ASCII (a string is
  a list of bytes here; the white space beyond ASCII is not modelled).
\<close>

definition isSpace :: "char \<Rightarrow> bool" where
  "isSpace c = (c \<in> set [CHR '' '', CHR 0x09, CHR 0x0A, CHR 0x0B, CHR 0x0C, CHR 0x0D])"

definition trim :: "string \<Rightarrow> string" where
  "trim s = rev (dropWhile isSpace (rev (dropWhile isSpace s)))"

text \<open>\<open>String.prototype.includes\<close> (the name alone is reserved).\<close>

fun startsWith :: "string \<Rightarrow> string \<Rightarrow> bool" where
  "startsWith s [] = True"
| "startsWith [] (p # ps) = False"
| "startsWith (c # cs) (p # ps) = (c = p \<and> startsWith cs ps)"

fun includesStr :: "string \<Rightarrow> string \<Rightarrow> bool" where
  "includesStr [] sub = (sub = [])"
| "includesStr (c # cs) sub = (startsWith (c # cs) sub \<or> includesStr cs sub)"

text \<open>\<open>String.prototype.split\<close> with a one-character separator.\<close>

fun split :: "char \<Rightarrow> string \<Rightarrow> string list" where
  "split sep [] = [[]]"
| "split sep (c # cs) =
     (if c = sep then [] # split sep cs
      else (case split sep cs of [] \<Rightarrow> [[c]] | y # ys \<Rightarrow> (c # y) # ys))"

text \<open>
  \<open>fileToBase64\<close> (\<open>utils.ts\<close>, lines 1-16). The reader fires \<open>onload\<close> with a string result
  (a data URL) or with another result, or fires \<open>onerror\<close> with an event that has no message.
  The promise resolves to the second piece of the data URL, which is \<open>undefined\<close> when the
  URL has no comma.
\<close>

datatype ReaderOutcome = LoadedString string | LoadedOther | ReadFailed

definition fileToBase64 :: "ReaderOutcome \<Rightarrow> js_thrown + string option" where
  "fileToBase64 r =
     (case r of
        LoadedString dataUrl \<Rightarrow>
          Inr (case split CHR '','' dataUrl of _ # base64 # _ \<Rightarrow> Some base64 | _ \<Rightarrow> None)
      | LoadedOther \<Rightarrow> Inl (Error ''Failed to convert file to base64'')
      | ReadFailed \<Rightarrow> Inl NotAnError)"

text \<open>
  \<open>fetch\<close>: the time in milliseconds after which the promise of the response settles, and
  how; or it never does. The response carries what the code asks of it: \<open>ok\<close>, \<open>status\<close>,
  \<open>statusText\<close>, and the promises of \<open>text()\<close> and \<open>json()\<close>. Of the parsed body the model
  keeps what the code reads: \<open>data[0].url\<close>, \<open>data[0].b64_json\<close> and the text that
  \<open>JSON.stringify\<close> gives for it.
\<close>

record ImagePayload =
  first_url :: "string option"
  first_b64_json :: "string option"
  stringified :: string

record HttpResponse =
  ok :: bool
  http_status :: nat
  statusText :: string
  body_text :: "string promise"
  body_json :: "ImagePayload promise"

datatype FetchBehaviour = Responds nat HttpResponse | Fails nat js_thrown | Hangs

record ImageRequest =
  pl_model :: string
  pl_prompt :: string
  pl_size :: string
  pl_n :: nat

record HttpRequest =
  req_url :: string
  req_method :: string
  req_contentType :: string
  req_authorization :: string
  req_body :: ImageRequest

text \<open>
  \<open>fetchWithTimeout\<close> (lines 42-56): the timer aborts the request after \<open>timeout\<close>
  milliseconds; it is cleared as soon as \<open>fetch\<close> has settled, that is, when the response
  (its head) has arrived.
\<close>

definition fetchWithTimeout ::
    "Env \<Rightarrow> (HttpRequest \<Rightarrow> FetchBehaviour) \<Rightarrow> HttpRequest \<Rightarrow> nat \<Rightarrow> js_thrown + HttpResponse" where
  "fetchWithTimeout env fetch request timeout =
     (case fetch request of
        Responds t response \<Rightarrow> if t < timeout then Inr response else Inl (abortError env)
      | Fails t e \<Rightarrow> if t < timeout then Inl e else Inl (abortError env)
      | Hangs \<Rightarrow> Inl (abortError env))"

definition cleanBaseUrl :: "string option \<Rightarrow> string" where
  "cleanBaseUrl url =
     (if \<not> truthy url then []
      else if last (the url) = CHR ''/'' then butlast (the url) else the url)"

text \<open>
  The SDK: \<open>new GoogleGenAI(clientConfig)\<close> throws or gives a client. The call
  \<open>ai.models.generateContentStream\<close> of a client: the promise of the stream is rejected,
  or never settles, or gives a stream of chunks, each with an optional \<open>text\<close>, that ends,
  throws, or stalls.
\<close>

datatype StreamEnd = StreamDone | StreamThrows js_thrown | StreamStalls

datatype SdkBehaviour = RequestRejected js_thrown | RequestStalls | Stream "string option list" StreamEnd

record ClientConfig =
  cc_apiKey :: string
  cc_baseUrl :: "string option"

record ContentRequest =
  cr_model :: string
  cr_mimeType :: string
  cr_data :: "string option"
  cr_promptText :: string
  cr_systemInstruction :: "string option"

datatype SdkClient = ConstructorThrows js_thrown | Client "ContentRequest \<Rightarrow> SdkBehaviour"

text \<open>
  The \<open>for await\<close> loop (lines 122-130): the texts handed to \<open>onStreamUpdate\<close>, in order, and
  the final \<open>fullText\<close>.
\<close>

fun consume :: "string \<Rightarrow> string option list \<Rightarrow> string list \<times> string" where
  "consume fullText [] = ([], fullText)"
| "consume fullText (chunk # chunks) =
     (if truthy chunk
      then (let (updates, final) = consume (fullText @ the chunk) chunks
            in ((fullText @ the chunk) # updates, final))
      else consume fullText chunks)"

text \<open>The \<open>catch\<close> of \<open>describeImage\<close> (lines 133-147).\<close>

definition analysisFailure :: "ServiceConfig \<Rightarrow> js_thrown \<Rightarrow> js_thrown" where
  "analysisFailure config e =
     (let msg = or_else (thrown_message e) ''Unknown error'';
          usingCustomUrl = (truthy (baseUrl config) \<and> trim (the (baseUrl config)) \<noteq> []);
          msg' = (if includesStr msg ''400'' \<or> includesStr msg ''API_KEY_INVALID''
                  then (if \<not> usingCustomUrl
                        then msg @ '' '' @ [CHR 0x0A, CHR 0x0A] @
                          ''[HINT] You are hitting Google Official. If you are using a proxy Key (like Apicore), you MUST set the Base URL in Settings -> Step 1.''
                        else msg @ '' '' @ [CHR 0x0A, CHR 0x0A] @
                          ''[HINT] Key rejected by your custom endpoint. Check if the key is correct.'')
                  else msg)
      in Error (''Analysis failed: '' @ msg'))"

text \<open>
  \<open>describeImage\<close> (lines 67-148), called with a callback as the driver calls it: the
  texts it hands to the callback, and how its promise
  settles (\<open>None\<close>: it never does). The key is looked up first; the client is built and
  the file is read outside the \<open>try\<close>, so a failure of either is passed on as it is.
\<close>

definition describeImage ::
    "Env \<Rightarrow> (File \<Rightarrow> ReaderOutcome) \<Rightarrow> (ClientConfig \<Rightarrow> SdkClient) \<Rightarrow>
     File \<Rightarrow> ServiceConfig \<Rightarrow> string list \<times> (js_thrown + string) option" where
  "describeImage env reader sdk f config =
     (let apiKey0 = or_else (apiKey config) (getEnv env ''API_KEY'') in
      if apiKey0 = []
      then ([], Some (Inl (Error ''API Key for Analysis step is missing. Please check Settings.'')))
      else
        (let clientConfig = \<lparr>cc_apiKey = trim apiKey0,
               cc_baseUrl = (if truthy (baseUrl config) \<and> trim (the (baseUrl config)) \<noteq> []
                             then Some (cleanBaseUrl (baseUrl config)) else None)\<rparr>
         in case sdk clientConfig of
              ConstructorThrows e \<Rightarrow> ([], Some (Inl e))
            | Client generateContentStream \<Rightarrow>
           (case fileToBase64 (reader f) of
              Inl e \<Rightarrow> ([], Some (Inl e))
            | Inr base64Data \<Rightarrow>
                (case generateContentStream
                        \<lparr>cr_model = or_else (model config) ''gemini-3-flash-preview'',
                         cr_mimeType = file_type f, cr_data = base64Data,
                         cr_promptText = ''Describe this image in detail to generate a similar image. Do not use conversational filler.'',
                         cr_systemInstruction = systemInstruction config\<rparr> of
                   RequestRejected e \<Rightarrow> ([], Some (Inl (analysisFailure config e)))
                 | RequestStalls \<Rightarrow> ([], None)
                 | Stream chunks ending \<Rightarrow>
                     (let (updates, fullText) = consume [] chunks in
                      case ending of
                        StreamDone \<Rightarrow>
                          (updates, Some (Inr (or_else (Some fullText) ''No description generated.'')))
                      | StreamThrows e \<Rightarrow> (updates, Some (Inl (analysisFailure config e)))
                      | StreamStalls \<Rightarrow> (updates, None))))))"

text \<open>
  The answer to a response that is not \<open>ok\<close> (lines 189-203). \<open>errorMessageOf\<close> is the
  runtime's \<open>JSON.parse\<close> followed by the read of \<open>error.message\<close>: \<open>None\<close> when the text does
  not parse or has no such message.
\<close>

definition detailedError :: "(string \<Rightarrow> string option) \<Rightarrow> HttpResponse \<Rightarrow> string \<Rightarrow> string" where
  "detailedError errorMessageOf response errText =
     (let prefix = ''API Error '' @ show_nat (http_status response) @ '': '' @ statusText response
      in if truthy (errorMessageOf errText)
         then prefix @ '' - '' @ the (errorMessageOf errText)
         else prefix @ [CHR 0x0A] @ ''Raw: '' @ take 300 errText)"

text \<open>The outer \<open>catch\<close> (lines 217-220): \<open>new Error(error.message)\<close>.\<close>

definition rethrow :: "js_thrown \<Rightarrow> js_thrown" where
  "rethrow e = Error (case thrown_message e of None \<Rightarrow> [] | Some m \<Rightarrow> m)"

text \<open>\<open>generateVariation\<close> (lines 153-221); \<open>None\<close>: its promise never settles.\<close>

definition generateVariation ::
    "Env \<Rightarrow> (HttpRequest \<Rightarrow> FetchBehaviour) \<Rightarrow> (string \<Rightarrow> string option) \<Rightarrow>
     File \<Rightarrow> string \<Rightarrow> ServiceConfig \<Rightarrow> (js_thrown + string) option" where
  "generateVariation env fetch errorMessageOf originalFile prompt config =
     (let apiKey0 = or_else (apiKey config) (getEnv env ''API_KEY'') in
      if apiKey0 = [] then Some (Inl (Error ''API Key for Generation step is missing.''))
      else
        (let base0 = cleanBaseUrl (map_option trim (baseUrl config));
             base = (if base0 = [] then ''https://api.apicore.ai/v1'' else base0);
             request = \<lparr>req_url = base @ ''/images/generations'', req_method = ''POST'',
                        req_contentType = ''application/json'',
                        req_authorization = ''Bearer '' @ trim apiKey0,
                        req_body = \<lparr>pl_model = or_else (map_option trim (model config))
                                                 ''gemini-3-pro-image-preview'',
                                     pl_prompt = (if truthy (systemInstruction config)
                                                  then the (systemInstruction config) @
                                                    [CHR 0x0A, CHR 0x0A] @ ''Positive Prompt: '' @ prompt
                                                  else prompt),
                                     pl_size = or_else (aspectRatio config) ''16:9'',
                                     pl_n = 1\<rparr>\<rparr>
         in case fetchWithTimeout env fetch request 120000 of
              Inl e \<Rightarrow> Some (Inl (rethrow e))
            | Inr response \<Rightarrow>
                if \<not> ok response
                then (case body_text response of
                        Fulfilled errText \<Rightarrow>
                          Some (Inl (rethrow (Error (detailedError errorMessageOf response errText))))
                      | Rejected e \<Rightarrow> Some (Inl (rethrow e))
                      | Unsettled \<Rightarrow> None)
                else (case body_json response of
                        Fulfilled data \<Rightarrow>
                          if truthy (first_url data) then Some (Inr (the (first_url data)))
                          else if truthy (first_b64_json data)
                          then Some (Inr (''data:image/png;base64,'' @ the (first_b64_json data)))
                          else Some (Inl (rethrow (Error (''Invalid Response Structure: '' @
                                 take 200 (stringified data) @ ''...''))))
                      | Rejected e \<Rightarrow> Some (Inl (rethrow e))
                      | Unsettled \<Rightarrow> None)))"

text \<open>
  The two entries that \<open>getEnv('API_KEY')\<close> reads (\<open>utils.ts\<close>, lines 29 and 33):
  \<open>import.meta.env.VITE_API_KEY\<close> and \<open>process.env.API_KEY\<close>.
\<close>

definition viteKey :: "Env \<Rightarrow> string option" where
  "viteKey env = (case metaEnv env of None \<Rightarrow> None | Some m \<Rightarrow> m ''VITE_API_KEY'')"

definition nodeKey :: "Env \<Rightarrow> string option" where
  "nodeKey env = (case processEnv env of None \<Rightarrow> None | Some m \<Rightarrow> m ''API_KEY'')"

text \<open>
  The credential of a stage call, as both clients compute it (lines 74 and 154):
  \<open>config.apiKey || getEnv('API_KEY')\<close>.
\<close>

definition credential :: "Env \<Rightarrow> ServiceConfig \<Rightarrow> string" where
  "credential env config = or_else (apiKey config) (getEnv env ''API_KEY'')"

text \<open>
  What \<open>describeImage\<close> hands to the SDK when its key is \<open>key\<close>: the argument of
  \<open>new GoogleGenAI\<close> (lines 77-87) and the argument of \<open>generateContentStream\<close>
  (lines 90-120).
\<close>

definition clientConfigFor :: "string \<Rightarrow> ServiceConfig \<Rightarrow> ClientConfig" where
  "clientConfigFor key config =
     \<lparr>cc_apiKey = trim key,
      cc_baseUrl = (if truthy (baseUrl config) \<and> trim (the (baseUrl config)) \<noteq> []
                    then Some (cleanBaseUrl (baseUrl config)) else None)\<rparr>"

definition contentRequestFor :: "ServiceConfig \<Rightarrow> File \<Rightarrow> string option \<Rightarrow> ContentRequest" where
  "contentRequestFor config f base64Data =
     \<lparr>cr_model = or_else (model config) ''gemini-3-flash-preview'',
      cr_mimeType = file_type f, cr_data = base64Data,
      cr_promptText = ''Describe this image in detail to generate a similar image. Do not use conversational filler.'',
      cr_systemInstruction = systemInstruction config\<rparr>"

text \<open>
  What \<open>generateVariation\<close> hands to \<open>fetchWithTimeout\<close> when its key is \<open>key\<close>
  (lines 156-187).
\<close>

definition generationRequestFor :: "string \<Rightarrow> ServiceConfig \<Rightarrow> string \<Rightarrow> HttpRequest" where
  "generationRequestFor key config prompt =
     \<lparr>req_url = (if cleanBaseUrl (map_option trim (baseUrl config)) = []
                  then ''https://api.apicore.ai/v1''
                  else cleanBaseUrl (map_option trim (baseUrl config))) @ ''/images/generations'',
      req_method = ''POST'',
      req_contentType = ''application/json'',
      req_authorization = ''Bearer '' @ trim key,
      req_body = \<lparr>pl_model = or_else (map_option trim (model config)) ''gemini-3-pro-image-preview'',
                   pl_prompt = (if truthy (systemInstruction config)
                                then the (systemInstruction config) @
                                  [CHR 0x0A, CHR 0x0A] @ ''Positive Prompt: '' @ prompt
                                else prompt),
                   pl_size = or_else (aspectRatio config) ''16:9'',
                   pl_n = 1\<rparr>\<rparr>"

text \<open>
  A thrown value whose \<open>message\<close> is \<open>msg\<close>; an SDK constructor that throws such a value;
  a \<open>fetch\<close> that fails with such a value or answers with a body whose \<open>text()\<close> or
  \<open>json()\<close> rejects with one.
\<close>

definition says :: "string \<Rightarrow> js_thrown \<Rightarrow> bool" where
  "says msg e = (thrown_message e = Some msg)"

definition clientSays :: "string \<Rightarrow> SdkClient \<Rightarrow> bool" where
  "clientSays msg c = (case c of ConstructorThrows e \<Rightarrow> says msg e | Client _ \<Rightarrow> False)"

definition fetchSays :: "string \<Rightarrow> FetchBehaviour \<Rightarrow> bool" where
  "fetchSays msg b =
     (case b of
        Fails t e \<Rightarrow> says msg e
      | Responds t response \<Rightarrow>
          (case body_text response of Rejected e \<Rightarrow> says msg e | _ \<Rightarrow> False)
          \<or> (case body_json response of Rejected e \<Rightarrow> says msg e | _ \<Rightarrow> False)
      | Hangs \<Rightarrow> False)"

text \<open>
  The events by which a call of \<open>describeImage\<close> reaches the call \<open>h\<close> of the driver that
  awaits it: its callbacks, then the settling of its promise, if it settles.
\<close>

definition analysisEvents :: "nat \<Rightarrow> string list \<times> (js_thrown + string) option \<Rightarrow> Event list" where
  "analysisEvents h r =
     map (StreamUpdate h) (fst r) @ (case snd r of None \<Rightarrow> [] | Some v \<Rightarrow> [AnalysisSettled h v])"

definition generationEvents :: "nat \<Rightarrow> (js_thrown + string) option \<Rightarrow> Event list" where
  "generationEvents h r = (case r of None \<Rightarrow> [] | Some v \<Rightarrow> [GenerationSettled h v])"

section \<open>Schedules and observations\<close>

text \<open>
  The statements about a run of the driver name the events of the run. In each schedule
  the stream callbacks of an analysis are any list of partial texts.
\<close>

text \<open>What the callbacks of one analysis leave in the item: the last partial text, if any.\<close>

definition streamed :: "string list \<Rightarrow> WorkItemPartial" where
  "streamed ps = noUpdates\<lparr>p_originalPrompt := (if ps = [] then None else Some (Some (last ps)))\<rparr>"

text \<open>The \<open>error\<close> records of the log.\<close>

definition errorRecords :: "AppState \<Rightarrow> SystemLog list" where
  "errorRecords s = filter (\<lambda>r. log_type r = LogError) (logs s)"

text \<open>
  A full run over three items: the start, then item 1 through both stages, item 2 with a
  rejected analysis, item 3 through both stages, each followed by the pacing delay.
\<close>

definition threeItemRun :: "nat \<Rightarrow> string list \<Rightarrow> string \<Rightarrow> string \<Rightarrow> string list \<Rightarrow> js_thrown \<Rightarrow>
    string list \<Rightarrow> string \<Rightarrow> string \<Rightarrow> Event list" where
  "threeItemRun h ps1 d1 g1 ps2 e2 ps3 d3 g3 =
     ExecuteClicked #
     map (StreamUpdate h) ps1 @
     [AnalysisSettled h (Inr d1), GenerationSettled h (Inr g1), DelayElapsed h] @
     map (StreamUpdate h) ps2 @
     [AnalysisSettled h (Inl e2), DelayElapsed h] @
     map (StreamUpdate h) ps3 @
     [AnalysisSettled h (Inr d3), GenerationSettled h (Inr g3), DelayElapsed h]"

text \<open>
  \<open>stop()\<close> while call \<open>h\<close> awaits the analysis, or the generation, of its item; then the
  stages of that item settle and the delay elapses. No other event comes between.
\<close>

definition stopDuringAnalysis :: "nat \<Rightarrow> string list \<Rightarrow> js_thrown + string \<Rightarrow> js_thrown + string \<Rightarrow> Event list" where
  "stopDuringAnalysis h ps ra rg =
     StopClicked # map (StreamUpdate h) ps @
     AnalysisSettled h ra # (case ra of Inl _ \<Rightarrow> [] | Inr _ \<Rightarrow> [GenerationSettled h rg]) @
     [DelayElapsed h]"

definition stopDuringGeneration :: "nat \<Rightarrow> js_thrown + string \<Rightarrow> Event list" where
  "stopDuringGeneration h rg = [StopClicked, GenerationSettled h rg, DelayElapsed h]"

text \<open>What lines 165-190 write to the item, by the way the two stages settle.\<close>

definition outcome :: "string list \<Rightarrow> js_thrown + string \<Rightarrow> js_thrown + string \<Rightarrow> WorkItemPartial" where
  "outcome ps ra rg =
     (case ra of
        Inl e \<Rightarrow> (streamed ps)\<lparr>p_status := Some ERROR,
                   p_error := Some (Some (or_else (thrown_message e) ''Unknown error occurred''))\<rparr>
      | Inr d \<Rightarrow>
          (case rg of
             Inl e \<Rightarrow> noUpdates\<lparr>p_status := Some ERROR, p_originalPrompt := Some (Some d),
                        p_error := Some (Some (or_else (thrown_message e) ''Unknown error occurred''))\<rparr>
           | Inr g \<Rightarrow> noUpdates\<lparr>p_status := Some COMPLETED, p_originalPrompt := Some (Some d),
                        p_generatedImageUrl := Some (Some g)\<rparr>))"

definition outcomeOfGeneration :: "js_thrown + string \<Rightarrow> WorkItemPartial" where
  "outcomeOfGeneration rg =
     (case rg of
        Inl e \<Rightarrow> noUpdates\<lparr>p_status := Some ERROR,
                   p_error := Some (Some (or_else (thrown_message e) ''Unknown error occurred''))\<rparr>
      | Inr g \<Rightarrow> noUpdates\<lparr>p_status := Some COMPLETED, p_generatedImageUrl := Some (Some g)\<rparr>)"

section \<open>The invariant of the store\<close>

text \<open>
  The invariant of a work item in the spec (section 3): of \<open>generatedImageUrl\<close> and
  \<open>error\<close> at most one is present, the first only when the item is \<open>COMPLETED\<close>, the
  second only when it is \<open>ERROR\<close>.
\<close>

definition exclusive :: "WorkItem \<Rightarrow> bool" where
  "exclusive item =
     ((generatedImageUrl item \<noteq> None \<longrightarrow> status item = COMPLETED)
      \<and> (error item \<noteq> None \<longrightarrow> status item = ERROR)
      \<and> \<not> (generatedImageUrl item \<noteq> None \<and> error item \<noteq> None))"

text \<open>
  The item that a suspended call of the driver is working on, with the status the call
  gave it: the id of \<open>currentItem\<close> while the call awaits a stage, nothing while it awaits
  the delay.
\<close>

definition flight :: "AppState \<Rightarrow> nat \<Rightarrow> (string \<times> WorkflowStatus) option" where
  "flight s h =
     (case tasks s h of
        Some (AwaitingAnalysis currentItem) \<Rightarrow> Some (item_id currentItem, ANALYZING)
      | Some (AwaitingGeneration currentItem description) \<Rightarrow> Some (item_id currentItem, GENERATING)
      | _ \<Rightarrow> None)"

text \<open>
  What holds of every state the component can reach: the ids of the items are distinct
  and were all given out by \<open>generateId\<close>; every item satisfies the invariant; an item has
  the status that the call working on it gave it; and no two calls work on the same item.
\<close>

definition wellFormed :: "World \<Rightarrow> AppState \<Rightarrow> bool" where
  "wellFormed w s =
     (distinct (map item_id (items s))
      \<and> (\<forall>item \<in> set (items s). item_id item \<in> randomId w ` {..<idCalls s} \<and> exclusive item)
      \<and> (\<forall>h i st. flight s h = Some (i, st) \<longrightarrow>
            i \<in> randomId w ` {..<idCalls s}
            \<and> (\<forall>item \<in> set (items s). item_id item = i \<longrightarrow> status item = st))
      \<and> (\<forall>h h' i st st'. flight s h = Some (i, st) \<longrightarrow> flight s h' = Some (i, st') \<longrightarrow> h = h'))"

section \<open>Example inputs\<close>

text \<open>Concrete values on which the statements below are evaluated.\<close>

definition exampleWorld :: World where
  "exampleWorld = \<lparr>randomId = (\<lambda>n. ''id'' @ replicate n CHR ''x''),
     objectURL = (\<lambda>n. ''blob:'' @ show_nat n),
     now = (\<lambda>n. 1000 * n)\<rparr>"

definition exampleItem :: "string \<Rightarrow> string \<Rightarrow> WorkflowStatus \<Rightarrow> WorkItem" where
  "exampleItem i n st =
     \<lparr>item_id = i, item_file = \<lparr>file_name = n, file_type = ''image/png''\<rparr>,
      previewUrl = ''blob:'' @ i, status = st, progressLog = [''Queued for processing...''],
      originalPrompt = None, generatedImageUrl = None, error = None\<rparr>"

definition exampleState :: "WorkItem list \<Rightarrow> bool \<Rightarrow> AppState" where
  "exampleState xs running = initialState\<lparr>items := xs, isProcessing := running, isProcessingRef := running\<rparr>"

definition exampleFile :: "string \<Rightarrow> File" where
  "exampleFile n = \<lparr>file_name = n, file_type = ''image/png''\<rparr>"

definition analyzingState :: AppState where
  "analyzingState =
     (exampleState [exampleItem ''a'' ''cat.png'' ANALYZING, exampleItem ''b'' ''dog.png'' PENDING] True)
       \<lparr>tasks := (\<lambda>h. if h = 0 then Some (AwaitingAnalysis (exampleItem ''a'' ''cat.png'' PENDING))
                       else None),
        nextTask := 1\<rparr>"

definition generatingState :: AppState where
  "generatingState =
     (exampleState [exampleItem ''a'' ''cat.png'' GENERATING, exampleItem ''b'' ''dog.png'' PENDING] True)
       \<lparr>tasks := (\<lambda>h. if h = 0
                       then Some (AwaitingGeneration (exampleItem ''a'' ''cat.png'' PENDING) ''a cat'')
                       else None),
        nextTask := 1\<rparr>"

definition threePending :: AppState where
  "threePending = exampleState [exampleItem ''a'' ''cat.png'' PENDING, exampleItem ''b'' ''dog.png'' PENDING,
     exampleItem ''c'' ''owl.png'' PENDING] False"

definition exampleEnv :: Env where
  "exampleEnv = \<lparr>metaEnv = None, processEnv = Some [''API_KEY'' \<mapsto> ''k-env''],
     abortError = Error ''signal is aborted without reason''\<rparr>"

definition emptyEnv :: Env where
  "emptyEnv = \<lparr>metaEnv = None, processEnv = None,
     abortError = Error ''signal is aborted without reason''\<rparr>"

definition exampleReader :: "File \<Rightarrow> ReaderOutcome" where
  "exampleReader f = LoadedString ''data:image/png;base64,AAAA''"

definition exampleSdk :: "SdkBehaviour \<Rightarrow> ClientConfig \<Rightarrow> SdkClient" where
  "exampleSdk b clientConfig = Client (\<lambda>request. b)"

definition exampleResponse :: "ImagePayload promise \<Rightarrow> HttpResponse" where
  "exampleResponse p = \<lparr>ok = True, http_status = 200, statusText = ''OK'',
     body_text = Unsettled, body_json = p\<rparr>"

definition exampleSession :: "Event list" where
  "exampleSession =
     [FilesSelected [exampleFile ''cat.png'', exampleFile ''dog.png''],
      ExecuteClicked,
      StreamUpdate 0 ''a'',
      AnalysisSettled 0 (Inr ''a cat''),
      GenerationSettled 0 (Inr ''https://img/1''),
      DelayElapsed 0,
      AnalysisSettled 0 (Inl (Error ''Analysis failed: 500'')),
      DelayElapsed 0,
      RetryClicked ''idx'']"

text \<open>
  A session in which the engine runs, and the same session after the Stop button: the
  call of the driver is still awaiting the analysis of the item.
\<close>

definition runningSession :: "Event list" where
  "runningSession = [FilesSelected [exampleFile ''cat.png''], ExecuteClicked]"

definition stoppedSession :: "Event list" where
  "stoppedSession = [FilesSelected [exampleFile ''cat.png''], ExecuteClicked, StopClicked]"

text \<open>
  An SDK and a network that accept one key only, \<open>k-env\<close>, and an environment that has it
  under \<open>VITE_API_KEY\<close>.
\<close>

definition keyedSdk :: "ClientConfig \<Rightarrow> SdkClient" where
  "keyedSdk clientConfig =
     (if cc_apiKey clientConfig = ''k-env''
      then Client (\<lambda>request. Stream [Some ''a cat''] StreamDone)
      else ConstructorThrows (Error ''API key not valid''))"

definition keyedFetch :: "HttpRequest \<Rightarrow> FetchBehaviour" where
  "keyedFetch request =
     (if req_authorization request = ''Bearer k-env''
      then Responds 10 (exampleResponse (Fulfilled
             \<lparr>first_url = Some ''https://img/1'', first_b64_json = None, stringified = []\<rparr>))
      else Fails 5 (Error ''401 Unauthorized''))"

definition viteEnv :: Env where
  "viteEnv = \<lparr>metaEnv = Some [''VITE_API_KEY'' \<mapsto> ''k-env''], processEnv = None,
     abortError = Error ''signal is aborted without reason''\<rparr>"

section \<open>Facts about the store operations\<close>

lemma items_addLog [simp]: "items (addLog w ty msg det s) = items s"
  by (simp add: addLog_def)

lemma items_updateItem:
  "items (updateItem i u s) = map (\<lambda>item. if item_id item = i then merge item u else item) (items s)"
  by (simp add: updateItem_def)

lemma item_id_merge [simp]: "item_id (merge item u) = item_id item"
  by (simp add: merge_def)

lemma item_file_merge [simp]: "item_file (merge item u) = item_file item"
  by (simp add: merge_def)

lemma fields_merge [simp]:
  "status (merge item u) = (case p_status u of None \<Rightarrow> status item | Some v \<Rightarrow> v)"
  "originalPrompt (merge item u) = (case p_originalPrompt u of None \<Rightarrow> originalPrompt item | Some v \<Rightarrow> v)"
  "generatedImageUrl (merge item u) = (case p_generatedImageUrl u of None \<Rightarrow> generatedImageUrl item | Some v \<Rightarrow> v)"
  "error (merge item u) = (case p_error u of None \<Rightarrow> error item | Some v \<Rightarrow> v)"
  "progressLog (merge item u) = (case p_progressLog u of None \<Rightarrow> progressLog item | Some v \<Rightarrow> v)"
  "previewUrl (merge item u) = previewUrl item"
  by (simp_all add: merge_def)

lemma in_items_updateItem:
  "x \<in> set (items (updateItem i u s)) \<Longrightarrow> item_id x = i \<Longrightarrow>
     \<exists>y \<in> set (items s). x = merge y u"
  by (auto simp: items_updateItem)

lemma map_item_id_updateItem [simp]:
  "map item_id (items (updateItem i u s)) = map item_id (items s)"
  by (simp add: items_updateItem cong: map_cong)

lemma filter_other_updateItem:
  "filter (\<lambda>x. item_id x \<noteq> i) (items (updateItem i u s)) = filter (\<lambda>x. item_id x \<noteq> i) (items s)"
proof -
  have "filter (\<lambda>x. item_id x \<noteq> i) (map (\<lambda>item. if item_id item = i then merge item u else item) xs)
        = filter (\<lambda>x. item_id x \<noteq> i) xs" for xs
    by (induction xs) auto
  then show ?thesis by (simp add: items_updateItem)
qed

lemma findIndex_Some:
  "findIndex P xs = Some k \<Longrightarrow> k < length xs \<and> P (xs ! k) \<and> (\<forall>j<k. \<not> P (xs ! j))"
proof (induction xs arbitrary: k)
  case Nil
  then show ?case by simp
next
  case (Cons x xs)
  show ?case
  proof (cases "P x")
    case True
    with Cons.prems show ?thesis by simp
  next
    case False
    with Cons.prems obtain k' where k: "findIndex P xs = Some k'" "k = Suc k'" by auto
    from Cons.IH [OF k(1)] False k(2) show ?thesis
      by (auto simp: nth_Cons split: nat.splits)
  qed
qed

lemma findIndex_None: "findIndex P xs = None \<longleftrightarrow> (\<forall>x \<in> set xs. \<not> P x)"
  by (induction xs) auto

section \<open>Facts about the driver\<close>

lemma merge_noUpdates [simp]: "merge item noUpdates = item"
  by (simp add: merge_def noUpdates_def)

lemma updateItem_noUpdates [simp]: "updateItem i noUpdates s = s"
  by (simp add: updateItem_def cong: if_cong)

lemma noUpdates_prompt_None [simp]: "noUpdates\<lparr>p_originalPrompt := None\<rparr> = noUpdates"
  by (simp add: noUpdates_def)

lemma tasks_updateItem [simp]: "tasks (updateItem i u s) = tasks s"
  by (simp add: updateItem_def)

lemma updateItem_prompt_twice:
  "updateItem i (noUpdates\<lparr>p_originalPrompt := Some v\<rparr>) (updateItem i (noUpdates\<lparr>p_originalPrompt := x\<rparr>) s)
   = updateItem i (noUpdates\<lparr>p_originalPrompt := Some v\<rparr>) s"
  by (simp add: updateItem_def merge_def noUpdates_def comp_def cong: if_cong) 

lemma stream_updates:
  "foldl (step w) s (map (StreamUpdate h) ps) =
     (case tasks s h of
        Some (AwaitingAnalysis cur) \<Rightarrow> updateItem (item_id cur) (streamed ps) s
      | _ \<Rightarrow> s)"
proof (induction ps arbitrary: s rule: rev_induct)
  case Nil
  show ?case by (simp add: streamed_def split: option.splits Suspended.splits)
next
  case (snoc p ps)
  show ?case
  proof (cases "tasks s h")
    case None
    then show ?thesis using snoc [of s] by (simp add: step_def)
  next
    case (Some t)
    show ?thesis
    proof (cases t)
      case (AwaitingAnalysis cur)
      with Some show ?thesis using snoc [of s]
        by (simp add: step_def onStreamUpdate_def streamed_def updateItem_prompt_twice)
    next
      case (AwaitingGeneration cur d)
      with Some show ?thesis using snoc [of s] by (simp add: step_def)
    next
      case AwaitingDelay
      with Some show ?thesis using snoc [of s] by (simp add: step_def)
    qed
  qed
qed


lemmas engine_defs = step_def processQueue_def loopHead_def beginItem_def finishQueue_def
      analysisSettled_def generationSettled_def delayElapsed_def catchBlock_def
      Let_def stats_def stats_step_def isPending_def noUpdates_def addLog_def updateItem_def

section \<open>Retry (\<open>handleRetryItem\<close>, lines 91-100)\<close>

text \<open>
  C3, as the spec states it: \<open>retry(id)\<close> on an item that is not in \<open>Error\<close> is rejected as
  a no-op. \<open>handleRetryItem\<close> has no guard on the status: applied to the id of a \<open>COMPLETED\<close>
  item it resets that item to \<open>PENDING\<close>, so the state changes.
\<close>

theorem retry_completed_counterexample:
  "status (hd (items (exampleState [exampleItem ''a'' ''cat.png'' COMPLETED] False))) = COMPLETED
   \<and> status (hd (items (handleRetryItem exampleWorld ''a''
          (exampleState [exampleItem ''a'' ''cat.png'' COMPLETED] False)))) = PENDING
   \<and> handleRetryItem exampleWorld ''a'' (exampleState [exampleItem ''a'' ''cat.png'' COMPLETED] False)
       \<noteq> exampleState [exampleItem ''a'' ''cat.png'' COMPLETED] False"
proof -
  let ?s = "exampleState [exampleItem ''a'' ''cat.png'' COMPLETED] False"
  have a: "status (hd (items ?s)) = COMPLETED"
    by (simp add: exampleState_def exampleItem_def)
  have b: "status (hd (items (handleRetryItem exampleWorld ''a'' ?s))) = PENDING"
    by (simp add: handleRetryItem_def items_updateItem exampleState_def exampleItem_def noUpdates_def)
  from a b have "items (handleRetryItem exampleWorld ''a'' ?s) \<noteq> items ?s" by auto
  then have c: "handleRetryItem exampleWorld ''a'' ?s \<noteq> ?s" by auto
  from a b c show ?thesis by (intro conjI)
qed

text \<open>
  C3, amended: \<open>handleRetryItem\<close> resets every item with the given id, whatever its status,
  to \<open>PENDING\<close> with \<open>error\<close>, \<open>generatedImageUrl\<close> and \<open>originalPrompt\<close> absent; the ids and
  their order are kept and the items with another id are untouched. The restriction to
  items in \<open>ERROR\<close> is the view's: the retry control is rendered only for such an item, so a
  retry click for an id with no item in \<open>ERROR\<close> cannot happen and changes nothing.
\<close>

theorem handleRetryItem_any_status:
  "(\<forall>item \<in> set (items (handleRetryItem w i s)). item_id item = i \<longrightarrow>
      status item = PENDING \<and> error item = None \<and> generatedImageUrl item = None \<and>
      originalPrompt item = None)
   \<and> map item_id (items (handleRetryItem w i s)) = map item_id (items s)
   \<and> filter (\<lambda>x. item_id x \<noteq> i) (items (handleRetryItem w i s)) =
       filter (\<lambda>x. item_id x \<noteq> i) (items s)
   \<and> ((\<exists>item \<in> set (items s). item_id item = i \<and> status item = ERROR) \<longrightarrow>
        step w s (RetryClicked i) = handleRetryItem w i s)
   \<and> (\<not> (\<exists>item \<in> set (items s). item_id item = i \<and> status item = ERROR) \<longrightarrow>
        step w s (RetryClicked i) = s)"
proof -
  have a: "\<forall>item \<in> set (items (handleRetryItem w i s)). item_id item = i \<longrightarrow>
      status item = PENDING \<and> error item = None \<and> generatedImageUrl item = None \<and>
      originalPrompt item = None"
  proof (intro ballI impI)
    fix item assume "item \<in> set (items (handleRetryItem w i s))" and "item_id item = i"
    then obtain y where "item = merge y (noUpdates\<lparr>p_status := Some PENDING, p_error := Some None,
             p_generatedImageUrl := Some None, p_originalPrompt := Some None,
             p_progressLog := Some [''Retrying...'']\<rparr>)"
      using in_items_updateItem by (fastforce simp: handleRetryItem_def)
    then show "status item = PENDING \<and> error item = None \<and> generatedImageUrl item = None \<and>
      originalPrompt item = None"
      by (simp add: noUpdates_def)
  qed
  have b: "map item_id (items (handleRetryItem w i s)) = map item_id (items s)"
    by (simp add: handleRetryItem_def)
  have c: "filter (\<lambda>x. item_id x \<noteq> i) (items (handleRetryItem w i s)) =
       filter (\<lambda>x. item_id x \<noteq> i) (items s)"
    by (simp add: handleRetryItem_def filter_other_updateItem)
  have d: "(\<exists>item \<in> set (items s). item_id item = i \<and> status item = ERROR) \<longrightarrow>
        step w s (RetryClicked i) = handleRetryItem w i s"
    by (simp add: step_def showsRetry_def)
  have e: "\<not> (\<exists>item \<in> set (items s). item_id item = i \<and> status item = ERROR) \<longrightarrow>
        step w s (RetryClicked i) = s"
    by (simp add: step_def showsRetry_def) blast
  from a b c d e show ?thesis by (intro conjI)
qed


theorem handleRetryItem_any_status_witness:
  "status (hd (items (handleRetryItem exampleWorld ''b''
      (exampleState [exampleItem ''b'' ''dog.png'' ERROR] False)))) = PENDING
   \<and> error (hd (items (handleRetryItem exampleWorld ''b''
      (exampleState [exampleItem ''b'' ''dog.png'' ERROR] False)))) = None
   \<and> step exampleWorld (exampleState [exampleItem ''b'' ''dog.png'' ERROR] False) (RetryClicked ''b'') =
       handleRetryItem exampleWorld ''b'' (exampleState [exampleItem ''b'' ''dog.png'' ERROR] False)
   \<and> step exampleWorld (exampleState [exampleItem ''b'' ''dog.png'' ERROR] False) (RetryClicked ''c'') =
       exampleState [exampleItem ''b'' ''dog.png'' ERROR] False"
  using handleRetryItem_any_status [of exampleWorld "''b''" "exampleState [exampleItem ''b'' ''dog.png'' ERROR] False"]
    handleRetryItem_any_status [of exampleWorld "''c''" "exampleState [exampleItem ''b'' ''dog.png'' ERROR] False"]
  by (simp add: handleRetryItem_def items_updateItem exampleState_def exampleItem_def noUpdates_def)

section \<open>Removal (\<open>handleRemoveItem\<close>, lines 87-89)\<close>

lemma updateItem_absent:
  "\<forall>item \<in> set (items s). item_id item \<noteq> i \<Longrightarrow> updateItem i u s = s"
proof -
  assume a: "\<forall>item \<in> set (items s). item_id item \<noteq> i"
  then have "map (\<lambda>item. if item_id item = i then merge item u else item) (items s) = items s"
    by (induction "items s" arbitrary: s) (simp_all add: map_idI)
  then show ?thesis by (simp add: updateItem_def)
qed

text \<open>
  C4, as the spec states it: \<open>remove(id)\<close> is rejected, the store unchanged, while the item
  is \<open>Analyzing\<close> or \<open>Generating\<close>. \<open>handleRemoveItem\<close> filters the item out whatever its
  status: an item in \<open>ANALYZING\<close> is removed while the driver loop runs.
\<close>

theorem remove_analyzing_counterexample:
  "status (hd (items (exampleState [exampleItem ''a'' ''cat.png'' ANALYZING] True))) = ANALYZING
   \<and> items (handleRemoveItem ''a'' (exampleState [exampleItem ''a'' ''cat.png'' ANALYZING] True)) = []
   \<and> handleRemoveItem ''a'' (exampleState [exampleItem ''a'' ''cat.png'' ANALYZING] True) \<noteq>
       exampleState [exampleItem ''a'' ''cat.png'' ANALYZING] True"
proof -
  let ?s = "exampleState [exampleItem ''a'' ''cat.png'' ANALYZING] True"
  have a: "status (hd (items ?s)) = ANALYZING"
    by (simp add: exampleState_def exampleItem_def)
  have b: "items (handleRemoveItem ''a'' ?s) = []"
    by (simp add: handleRemoveItem_def exampleState_def exampleItem_def)
  have "items ?s \<noteq> []" by (simp add: exampleState_def)
  with b have c: "handleRemoveItem ''a'' ?s \<noteq> ?s" by auto
  from a b c show ?thesis by (intro conjI)
qed

text \<open>
  C4, amended: \<open>remove(id)\<close> has no guard, in the handler or in the view (the remove control
  is rendered for every item): it removes every item with that id whatever its status,
  \<open>ANALYZING\<close> and \<open>GENERATING\<close> included, keeps the other items in their order, and touches
  neither the log nor the suspended calls of the driver. What protects an item in flight is
  \<open>updateItem\<close>: a later update of the removed id changes nothing.
\<close>

theorem handleRemoveItem_any_status:
  "(\<forall>item \<in> set (items (handleRemoveItem i s)). item_id item \<noteq> i)
   \<and> items (handleRemoveItem i s) = filter (\<lambda>item. item_id item \<noteq> i) (items s)
   \<and> logs (handleRemoveItem i s) = logs s
   \<and> tasks (handleRemoveItem i s) = tasks s
   \<and> isProcessingRef (handleRemoveItem i s) = isProcessingRef s
   \<and> updateItem i u (handleRemoveItem i s) = handleRemoveItem i s
   \<and> step w s (RemoveClicked i) = handleRemoveItem i s"
proof -
  have a: "\<forall>item \<in> set (items (handleRemoveItem i s)). item_id item \<noteq> i"
    by (simp add: handleRemoveItem_def)
  have b: "items (handleRemoveItem i s) = filter (\<lambda>item. item_id item \<noteq> i) (items s)"
    by (simp add: handleRemoveItem_def)
  have c: "logs (handleRemoveItem i s) = logs s" "tasks (handleRemoveItem i s) = tasks s"
    "isProcessingRef (handleRemoveItem i s) = isProcessingRef s"
    by (simp_all add: handleRemoveItem_def)
  have d: "updateItem i u (handleRemoveItem i s) = handleRemoveItem i s"
    using a by (rule updateItem_absent)
  have e: "step w s (RemoveClicked i) = handleRemoveItem i s"
  proof (cases "\<exists>item \<in> set (items s). item_id item = i")
    case True
    then show ?thesis by (simp add: step_def showsRemove_def)
  next
    case False
    then have "filter (\<lambda>item. item_id item \<noteq> i) (items s) = items s"
      by (simp add: filter_id_conv)
    then have "handleRemoveItem i s = s" by (simp add: handleRemoveItem_def)
    with False show ?thesis by (simp add: step_def showsRemove_def)
  qed
  from a b c d e show ?thesis by (intro conjI)
qed

theorem handleRemoveItem_any_status_witness:
  "items (handleRemoveItem ''a''
      (exampleState [exampleItem ''a'' ''cat.png'' GENERATING, exampleItem ''b'' ''dog.png'' PENDING] True))
     = [exampleItem ''b'' ''dog.png'' PENDING]
   \<and> step exampleWorld
        (exampleState [exampleItem ''a'' ''cat.png'' GENERATING, exampleItem ''b'' ''dog.png'' PENDING] True)
        (RemoveClicked ''a'')
       = handleRemoveItem ''a''
          (exampleState [exampleItem ''a'' ''cat.png'' GENERATING, exampleItem ''b'' ''dog.png'' PENDING] True)"
  using handleRemoveItem_any_status [of "''a''"
      "exampleState [exampleItem ''a'' ''cat.png'' GENERATING, exampleItem ''b'' ''dog.png'' PENDING] True"
      noUpdates exampleWorld]
  by (simp add: exampleState_def exampleItem_def)

section \<open>\<open>clearCompleted\<close> and \<open>resetAll\<close> (lines 212-222)\<close>

text \<open>
  \<open>isProcessing\<close> is set only by a call of \<open>processQueue\<close> that goes on to suspend, and
  the call clears it before it returns: in every state the component reaches, the flag
  is set only while a call of the driver is in flight. The converse fails:
  \<open>stopProcessing\<close> (lines 206-210) clears the flag at once, and the call in flight returns
  only when the stage it awaits has settled.
\<close>

lemma flag_step:
  assumes "isProcessing s \<longrightarrow> tasks s \<noteq> Map.empty"
  shows "isProcessing (step w s e) \<longrightarrow> tasks (step w s e) \<noteq> Map.empty"
proof (cases "offered e s")
  case False
  with assms show ?thesis by (simp add: step_def)
next
  case True
  have "isProcessing (fire w e s) \<longrightarrow> tasks (fire w e s) \<noteq> Map.empty"
  proof (cases e)
    case (FilesSelected files)
    with assms show ?thesis by (simp add: handleFilesSelected_def Let_def addLog_def)
  next
    case (RetryClicked i)
    with assms show ?thesis by (simp add: handleRetryItem_def addLog_def updateItem_def)
  next
    case (RemoveClicked i)
    with assms show ?thesis by (simp add: handleRemoveItem_def)
  next
    case ResetAllClicked
    with assms show ?thesis by (simp add: resetAll_def addLog_def)
  next
    case ClearCompletedClicked
    with assms show ?thesis by (simp add: clearCompleted_def addLog_def)
  next
    case ExecuteClicked
    with assms show ?thesis
      by (auto simp: processQueue_def loopHead_def beginItem_def finishQueue_def Let_def addLog_def
          updateItem_def fun_eq_iff split: option.splits)
  next
    case StopClicked
    with assms show ?thesis by (simp add: stopProcessing_def addLog_def)
  next
    case (SettingsSaved newSettings)
    with assms show ?thesis by (simp add: saveSettings_def addLog_def)
  next
    case (AspectRatioChanged newRatio)
    with assms show ?thesis by (simp add: handleAspectRatioChange_def addLog_def)
  next
    case LogsCleared
    with assms show ?thesis by simp
  next
    case (StreamUpdate h partialText)
    with assms show ?thesis
      by (simp add: onStreamUpdate_def updateItem_def split: option.splits Suspended.splits)
  next
    case (AnalysisSettled h r)
    with assms show ?thesis
      by (auto simp: analysisSettled_def catchBlock_def Let_def addLog_def updateItem_def fun_eq_iff
          split: option.splits Suspended.splits sum.splits)
  next
    case (GenerationSettled h r)
    with assms show ?thesis
      by (auto simp: generationSettled_def catchBlock_def Let_def addLog_def updateItem_def fun_eq_iff
          split: option.splits Suspended.splits sum.splits)
  next
    case (DelayElapsed h)
    with assms show ?thesis
      by (auto simp: delayElapsed_def loopHead_def beginItem_def finishQueue_def Let_def addLog_def
          updateItem_def fun_eq_iff split: option.splits Suspended.splits)
  qed
  with True show ?thesis by (simp add: step_def)
qed


lemma driverInFlight_tasks: "driverInFlight s = (tasks s \<noteq> Map.empty)"
  by (auto simp: driverInFlight_def fun_eq_iff)

lemma flag_run:
  "(isProcessing s \<longrightarrow> driverInFlight s) \<Longrightarrow>
   isProcessing (run w s es) \<longrightarrow> driverInFlight (run w s es)"
proof (induction es arbitrary: s)
  case Nil
  then show ?case by (simp add: run_def)
next
  case (Cons e es)
  from Cons.prems have "isProcessing (step w s e) \<longrightarrow> driverInFlight (step w s e)"
    unfolding driverInFlight_tasks by (rule flag_step)
  from Cons.IH [OF this] show ?case by (simp add: run_def)
qed

lemma session_facts:
  "isProcessing (run exampleWorld initialState runningSession)"
  "flight (run exampleWorld initialState runningSession) 0 = Some (''id'', ANALYZING)"
  "logs (clearCompleted exampleWorld (run exampleWorld initialState runningSession)) =
     logs (run exampleWorld initialState runningSession)"
  "logs (resetAll exampleWorld (run exampleWorld initialState runningSession)) =
     logs (run exampleWorld initialState runningSession)"
  "\<not> isProcessing (run exampleWorld initialState stoppedSession)"
  "flight (run exampleWorld initialState stoppedSession) 0 = Some (''id'', ANALYZING)"
  "map status (items (run exampleWorld initialState stoppedSession)) = [ANALYZING]"
  "items (step exampleWorld (run exampleWorld initialState stoppedSession) ResetAllClicked) = []"
  "flight (step exampleWorld (run exampleWorld initialState stoppedSession) ResetAllClicked) 0 =
     Some (''id'', ANALYZING)"
  "length (logs (step exampleWorld (run exampleWorld initialState stoppedSession) ClearCompletedClicked)) =
     Suc (length (logs (run exampleWorld initialState stoppedSession)))"
  by (simp_all add: run_def runningSession_def stoppedSession_def handleFilesSelected_def newItem_def
        exampleWorld_def initialState_def stopProcessing_def merge_def flight_def
        clearCompleted_def resetAll_def enumerate_eq_zip engine_defs)

lemma flight_driverInFlight: "flight s h = Some x \<Longrightarrow> driverInFlight s"
  by (auto simp: flight_def driverInFlight_def split: option.splits)

text \<open>
  C7, as the spec states it: while the engine runs, \<open>clearFinished()\<close> and \<open>resetAll()\<close> are
  rejected as no-ops and a warning record is appended to the log. Two runs of the code
  differ from that. In the first the engine runs and \<open>isProcessing\<close> is set: both handlers
  return at once and the log is what it was, no record is appended. In the second the
  Stop button has been pressed while the driver awaits the analysis of the only item:
  the call is still in flight and the item is \<open>ANALYZING\<close>, yet \<open>resetAll\<close> is offered and
  empties the store, and \<open>clearCompleted\<close> is offered and appends its record.
\<close>

theorem clearCompleted_running_counterexample:
  "isProcessing (run exampleWorld initialState runningSession)
   \<and> driverInFlight (run exampleWorld initialState runningSession)
   \<and> logs (clearCompleted exampleWorld (run exampleWorld initialState runningSession)) =
       logs (run exampleWorld initialState runningSession)
   \<and> logs (resetAll exampleWorld (run exampleWorld initialState runningSession)) =
       logs (run exampleWorld initialState runningSession)
   \<and> driverInFlight (run exampleWorld initialState stoppedSession)
   \<and> flight (run exampleWorld initialState stoppedSession) 0 = Some (''id'', ANALYZING)
   \<and> map status (items (run exampleWorld initialState stoppedSession)) = [ANALYZING]
   \<and> items (step exampleWorld (run exampleWorld initialState stoppedSession) ResetAllClicked) = []
   \<and> driverInFlight (step exampleWorld (run exampleWorld initialState stoppedSession) ResetAllClicked)
   \<and> length (logs (step exampleWorld (run exampleWorld initialState stoppedSession)
         ClearCompletedClicked)) =
       Suc (length (logs (run exampleWorld initialState stoppedSession)))"
  using session_facts flight_driverInFlight [OF session_facts(2)]
    flight_driverInFlight [OF session_facts(6)] flight_driverInFlight [OF session_facts(9)]
  by (intro conjI)

text \<open>
  C7, amended: while \<open>isProcessing\<close> is set, \<open>clearCompleted\<close> and \<open>resetAll\<close> are silent
  no-ops (store and log unchanged, and the view disables both buttons); in every state
  the component reaches, the flag is set only while a call of the driver is in flight.
  While the engine is idle, that is, the flag is not set and no call of the driver is in
  flight, \<open>clearCompleted\<close> keeps exactly the items that are neither \<open>COMPLETED\<close> nor
  \<open>ERROR\<close>, in their order, so every \<open>PENDING\<close> item is untouched, and appends an \<open>info\<close>
  record; \<open>resetAll\<close> empties the store and appends a \<open>warning\<close> record. The statement
  says nothing of the states between the Stop button and the return of the call it
  stopped.
\<close>

theorem clearCompleted_resetAll_guard:
  "(isProcessing s \<longrightarrow> clearCompleted w s = s \<and> resetAll w s = s
        \<and> step w s ClearCompletedClicked = s \<and> step w s ResetAllClicked = s)
   \<and> (isProcessing (run w initialState es) \<longrightarrow> driverInFlight (run w initialState es))
   \<and> (\<not> isProcessing s \<and> \<not> driverInFlight s \<longrightarrow>
        items (clearCompleted w s) =
          filter (\<lambda>item. status item \<noteq> COMPLETED \<and> status item \<noteq> ERROR) (items s)
        \<and> filter isPending (items (clearCompleted w s)) = filter isPending (items s)
        \<and> map log_type (logs (clearCompleted w s)) = map log_type (logs s) @ [LogInfo]
        \<and> items (resetAll w s) = []
        \<and> map log_type (logs (resetAll w s)) = map log_type (logs s) @ [LogWarning])"
proof -
  have a: "isProcessing s \<longrightarrow> clearCompleted w s = s \<and> resetAll w s = s
        \<and> step w s ClearCompletedClicked = s \<and> step w s ResetAllClicked = s"
    by (simp add: clearCompleted_def resetAll_def step_def)
  have r: "isProcessing (run w initialState es) \<longrightarrow> driverInFlight (run w initialState es)"
    by (rule flag_run) (simp add: initialState_def)
  have p: "filter isPending (filter (\<lambda>item. status item \<noteq> COMPLETED \<and> status item \<noteq> ERROR) xs)
           = filter isPending xs" for xs
    by (induction xs) (auto simp: isPending_def)
  have b: "\<not> isProcessing s \<and> \<not> driverInFlight s \<longrightarrow>
        items (clearCompleted w s) =
          filter (\<lambda>item. status item \<noteq> COMPLETED \<and> status item \<noteq> ERROR) (items s)
        \<and> filter isPending (items (clearCompleted w s)) = filter isPending (items s)
        \<and> map log_type (logs (clearCompleted w s)) = map log_type (logs s) @ [LogInfo]
        \<and> items (resetAll w s) = []
        \<and> map log_type (logs (resetAll w s)) = map log_type (logs s) @ [LogWarning]"
    using p by (simp add: clearCompleted_def resetAll_def addLog_def)
  from a r b show ?thesis by (intro conjI)
qed

theorem clearCompleted_resetAll_guard_witness:
  "clearCompleted exampleWorld (run exampleWorld initialState runningSession) =
     run exampleWorld initialState runningSession
   \<and> resetAll exampleWorld (run exampleWorld initialState runningSession) =
     run exampleWorld initialState runningSession
   \<and> driverInFlight (run exampleWorld initialState runningSession)
   \<and> items (clearCompleted exampleWorld
        (exampleState [exampleItem ''a'' ''cat.png'' COMPLETED, exampleItem ''b'' ''dog.png'' PENDING,
           exampleItem ''c'' ''owl.png'' ERROR] False))
     = [exampleItem ''b'' ''dog.png'' PENDING]
   \<and> items (resetAll exampleWorld
        (exampleState [exampleItem ''a'' ''cat.png'' COMPLETED, exampleItem ''b'' ''dog.png'' PENDING,
           exampleItem ''c'' ''owl.png'' ERROR] False)) = []"
proof -
  let ?idle = "exampleState [exampleItem ''a'' ''cat.png'' COMPLETED, exampleItem ''b'' ''dog.png'' PENDING,
           exampleItem ''c'' ''owl.png'' ERROR] False"
  have i: "\<not> isProcessing ?idle" "\<not> driverInFlight ?idle"
    "filter (\<lambda>item. status item \<noteq> COMPLETED \<and> status item \<noteq> ERROR) (items ?idle) =
       [exampleItem ''b'' ''dog.png'' PENDING]"
    by (simp_all add: exampleState_def exampleItem_def initialState_def driverInFlight_def)
  have f: "isProcessing (run exampleWorld initialState runningSession)"
    by (simp add: run_def runningSession_def handleFilesSelected_def newItem_def
        exampleWorld_def initialState_def merge_def enumerate_eq_zip engine_defs)
  from clearCompleted_resetAll_guard [of "run exampleWorld initialState runningSession" exampleWorld
      runningSession] f
  have 1: "clearCompleted exampleWorld (run exampleWorld initialState runningSession) =
     run exampleWorld initialState runningSession"
    and 2: "resetAll exampleWorld (run exampleWorld initialState runningSession) =
     run exampleWorld initialState runningSession"
    and 3: "driverInFlight (run exampleWorld initialState runningSession)"
    by blast+
  from clearCompleted_resetAll_guard [of ?idle exampleWorld] i
  have 4: "items (clearCompleted exampleWorld ?idle) = [exampleItem ''b'' ''dog.png'' PENDING]"
    and 5: "items (resetAll exampleWorld ?idle) = []"
    by simp_all
  from 1 2 3 4 5 show ?thesis by (intro conjI)
qed

section \<open>Store order (\<open>handleFilesSelected\<close>, \<open>updateItem\<close>, \<open>findIndex\<close>)\<close>

lemma items_handleFilesSelected:
  "items (handleFilesSelected w files s) =
     items s @ map (\<lambda>(k, f). newItem w s k f) (enumerate 0 files)"
  by (simp add: handleFilesSelected_def Let_def)

lemma new_items_files:
  "map item_file (map (\<lambda>(k, f). newItem w s k f) (enumerate n files)) = files"
  by (induction files arbitrary: n) (simp_all add: newItem_def)

lemma new_items_pending:
  "\<forall>item \<in> set (map (\<lambda>(k, f). newItem w s k f) (enumerate n files)). status item = PENDING"
  by (induction files arbitrary: n) (simp_all add: newItem_def)

lemma addFiles_batches:
  "\<exists>new. items (foldl (\<lambda>s files. handleFilesSelected w files s) s batches) = items s @ new
     \<and> map item_file new = concat batches \<and> (\<forall>item \<in> set new. status item = PENDING)"
proof (induction batches arbitrary: s)
  case Nil
  then show ?case by simp
next
  case (Cons b bs)
  let ?s1 = "handleFilesSelected w b s"
  let ?n1 = "map (\<lambda>(k, f). newItem w s k f) (enumerate 0 b)"
  from Cons.IH [of ?s1] obtain new where
    n: "items (foldl (\<lambda>s files. handleFilesSelected w files s) ?s1 bs) = items ?s1 @ new"
       "map item_file new = concat bs" "\<forall>item \<in> set new. status item = PENDING"
    by blast
  have "items (foldl (\<lambda>s files. handleFilesSelected w files s) s (b # bs)) = items s @ (?n1 @ new)"
    using n(1) by (simp add: items_handleFilesSelected)
  moreover have "map item_file (?n1 @ new) = concat (b # bs)"
    using n(2) new_items_files [of w s 0 b] by simp
  moreover have "\<forall>item \<in> set (?n1 @ new). status item = PENDING"
    using n(3) new_items_pending [of w s 0 b] by auto
  ultimately show ?case by blast
qed

lemma updates_keep_order:
  "map item_id (items (foldl (\<lambda>s (i, u). updateItem i u s) s us)) = map item_id (items s)
   \<and> map item_file (items (foldl (\<lambda>s (i, u). updateItem i u s) s us)) = map item_file (items s)"
proof (induction us arbitrary: s)
  case Nil
  then show ?case by simp
next
  case (Cons a us)
  obtain i u where a: "a = (i, u)" by (cases a)
  have "map item_file (items (updateItem i u s)) = map item_file (items s)"
    by (simp add: items_updateItem cong: map_cong)
  then show ?case using Cons.IH [of "updateItem i u s"] a by simp
qed

lemma tasks_beginItem: "tasks (beginItem w h cur s) h = Some (AwaitingAnalysis cur)"
  by (simp add: beginItem_def Let_def)


text \<open>
  C6: after any sequence of \<open>addFiles\<close> calls the store holds the earlier items unchanged,
  followed by the files of the calls in call order and, within a call, in the order of the
  call's files; no sequence of \<open>update\<close> operations changes the ids or the files or their
  order; and \<open>findIndex\<close> returns the first \<open>PENDING\<close> item in that order (none only when
  no item is \<open>PENDING\<close>), which is the item the driver loop commits to, at its start and
  after every item.
\<close>

theorem store_order_is_insertion_order:
  "map item_file (items (foldl (\<lambda>s files. handleFilesSelected w files s) s batches)) =
     map item_file (items s) @ concat batches
   \<and> take (length (items s)) (items (foldl (\<lambda>s files. handleFilesSelected w files s) s batches)) =
       items s
   \<and> map item_id (items (foldl (\<lambda>s (i, u). updateItem i u s) s us)) = map item_id (items s)
   \<and> map item_file (items (foldl (\<lambda>s (i, u). updateItem i u s) s us)) = map item_file (items s)
   \<and> (findIndex isPending (items s) = None \<longleftrightarrow> (\<forall>item \<in> set (items s). status item \<noteq> PENDING))
   \<and> (\<forall>k. findIndex isPending (items s) = Some k \<longrightarrow>
          k < length (items s) \<and> status (items s ! k) = PENDING
          \<and> (\<forall>j<k. status (items s ! j) \<noteq> PENDING)
          \<and> (isProcessingRef s \<longrightarrow>
               tasks (loopHead w h s) h = Some (AwaitingAnalysis (items s ! k)))
          \<and> (\<not> isProcessingRef s \<longrightarrow>
               tasks (processQueue w s) (nextTask s) = Some (AwaitingAnalysis (items s ! k))))"
proof -
  obtain new where n: "items (foldl (\<lambda>s files. handleFilesSelected w files s) s batches) = items s @ new"
    "map item_file new = concat batches"
    using addFiles_batches [of w s batches] by blast
  have a: "map item_file (items (foldl (\<lambda>s files. handleFilesSelected w files s) s batches)) =
     map item_file (items s) @ concat batches"
    using n by simp
  have b: "take (length (items s)) (items (foldl (\<lambda>s files. handleFilesSelected w files s) s batches)) =
       items s"
    using n by simp
  note c = updates_keep_order [of s us]
  have d: "findIndex isPending (items s) = None \<longleftrightarrow> (\<forall>item \<in> set (items s). status item \<noteq> PENDING)"
    by (simp add: findIndex_None isPending_def)
  have e: "\<forall>k. findIndex isPending (items s) = Some k \<longrightarrow>
          k < length (items s) \<and> status (items s ! k) = PENDING
          \<and> (\<forall>j<k. status (items s ! j) \<noteq> PENDING)
          \<and> (isProcessingRef s \<longrightarrow>
               tasks (loopHead w h s) h = Some (AwaitingAnalysis (items s ! k)))
          \<and> (\<not> isProcessingRef s \<longrightarrow>
               tasks (processQueue w s) (nextTask s) = Some (AwaitingAnalysis (items s ! k)))"
  proof (intro allI impI)
    fix k assume k: "findIndex isPending (items s) = Some k"
    from findIndex_Some [OF k] have f: "k < length (items s)" "status (items s ! k) = PENDING"
      "\<forall>j<k. status (items s ! j) \<noteq> PENDING"
      by (simp_all add: isPending_def)
    have g: "isProcessingRef s \<longrightarrow> tasks (loopHead w h s) h = Some (AwaitingAnalysis (items s ! k))"
      using k by (simp add: loopHead_def tasks_beginItem)
    have h: "\<not> isProcessingRef s \<longrightarrow>
               tasks (processQueue w s) (nextTask s) = Some (AwaitingAnalysis (items s ! k))"
      using k by (simp add: processQueue_def loopHead_def tasks_beginItem addLog_def)
    from f g h show "k < length (items s) \<and> status (items s ! k) = PENDING
          \<and> (\<forall>j<k. status (items s ! j) \<noteq> PENDING)
          \<and> (isProcessingRef s \<longrightarrow>
               tasks (loopHead w h s) h = Some (AwaitingAnalysis (items s ! k)))
          \<and> (\<not> isProcessingRef s \<longrightarrow>
               tasks (processQueue w s) (nextTask s) = Some (AwaitingAnalysis (items s ! k)))"
      by (intro conjI)
  qed
  from a b c d e show ?thesis by (intro conjI) simp_all
qed

theorem store_order_is_insertion_order_witness:
  "map item_file (items (foldl (\<lambda>s files. handleFilesSelected exampleWorld files s) initialState
       [[exampleFile ''1.png''], [exampleFile ''2.png'', exampleFile ''3.png'']])) =
     [exampleFile ''1.png'', exampleFile ''2.png'', exampleFile ''3.png'']
   \<and> findIndex isPending (items (exampleState [exampleItem ''a'' ''cat.png'' COMPLETED,
         exampleItem ''b'' ''dog.png'' PENDING, exampleItem ''c'' ''owl.png'' PENDING] False)) = Some 1
   \<and> tasks (processQueue exampleWorld (exampleState [exampleItem ''a'' ''cat.png'' COMPLETED,
         exampleItem ''b'' ''dog.png'' PENDING, exampleItem ''c'' ''owl.png'' PENDING] False)) 0 =
       Some (AwaitingAnalysis (exampleItem ''b'' ''dog.png'' PENDING))"
proof -
  let ?s = "exampleState [exampleItem ''a'' ''cat.png'' COMPLETED,
         exampleItem ''b'' ''dog.png'' PENDING, exampleItem ''c'' ''owl.png'' PENDING] False"
  have f: "findIndex isPending (items ?s) = Some 1"
    by (simp add: exampleState_def exampleItem_def isPending_def)
  have a: "map item_file (items (foldl (\<lambda>s files. handleFilesSelected exampleWorld files s) initialState
       [[exampleFile ''1.png''], [exampleFile ''2.png'', exampleFile ''3.png'']])) =
     [exampleFile ''1.png'', exampleFile ''2.png'', exampleFile ''3.png'']"
    using store_order_is_insertion_order [of exampleWorld initialState
        "[[exampleFile ''1.png''], [exampleFile ''2.png'', exampleFile ''3.png'']]" "[]" 0]
    by (simp add: initialState_def)
  have b: "tasks (processQueue exampleWorld ?s) 0 = Some (AwaitingAnalysis (exampleItem ''b'' ''dog.png'' PENDING))"
    using store_order_is_insertion_order [of exampleWorld ?s "[]" "[]" 0] f
    by (simp add: exampleState_def initialState_def)
  from a f b show ?thesis by (intro conjI)
qed

section \<open>Runs of the driver loop\<close>

text \<open>
  C1: three \<open>PENDING\<close> items with distinct ids, the engine idle; the run is started, the
  analysis of item 2 is rejected and every other stage call succeeds. When the loop has
  ended (its call is gone and both flags are reset), item 1 and item 3 are \<open>COMPLETED\<close>
  with their results, item 2 is \<open>ERROR\<close> with its \<open>error\<close> set to the cause, and the log
  has gained exactly one \<open>error\<close> record, which names the file of item 2 and the cause.
\<close>

theorem failure_isolation:
  assumes "items s = [a, b, c]"
    and "status a = PENDING" and "status b = PENDING" and "status c = PENDING"
    and "item_id a \<noteq> item_id b" and "item_id a \<noteq> item_id c" and "item_id b \<noteq> item_id c"
    and "\<not> isProcessing s" and "\<not> isProcessingRef s"
  shows "items (run w s (threeItemRun (nextTask s) ps1 d1 g1 ps2 e2 ps3 d3 g3)) =
           [a\<lparr>status := COMPLETED, originalPrompt := Some d1, generatedImageUrl := Some g1\<rparr>,
            b\<lparr>status := ERROR, originalPrompt := Some (last ([] # ps2)),
              error := Some (or_else (thrown_message e2) ''Unknown error occurred'')\<rparr>,
            c\<lparr>status := COMPLETED, originalPrompt := Some d3, generatedImageUrl := Some g3\<rparr>]
         \<and> map (\<lambda>r. (message r, details r))
               (errorRecords (run w s (threeItemRun (nextTask s) ps1 d1 g1 ps2 e2 ps3 d3 g3))) =
             map (\<lambda>r. (message r, details r)) (errorRecords s) @
             [(''Failed processing '' @ file_name (item_file b) @ '': '' @
                 or_else (thrown_message e2) ''Unknown error occurred'', Some e2)]
         \<and> tasks (run w s (threeItemRun (nextTask s) ps1 d1 g1 ps2 e2 ps3 d3 g3)) (nextTask s) = None
         \<and> \<not> isProcessing (run w s (threeItemRun (nextTask s) ps1 d1 g1 ps2 e2 ps3 d3 g3))
         \<and> \<not> isProcessingRef (run w s (threeItemRun (nextTask s) ps1 d1 g1 ps2 e2 ps3 d3 g3))"
proof -
  let ?s' = "run w s (threeItemRun (nextTask s) ps1 d1 g1 ps2 e2 ps3 d3 g3)"
  have i: "items ?s' =
           [a\<lparr>status := COMPLETED, originalPrompt := Some d1, generatedImageUrl := Some g1\<rparr>,
            b\<lparr>status := ERROR, originalPrompt := Some (last ([] # ps2)),
              error := Some (or_else (thrown_message e2) ''Unknown error occurred'')\<rparr>,
            c\<lparr>status := COMPLETED, originalPrompt := Some d3, generatedImageUrl := Some g3\<rparr>]"
    using assms
    by (simp add: run_def threeItemRun_def stream_updates streamed_def merge_def engine_defs)
  have l: "map (\<lambda>r. (message r, details r)) (errorRecords ?s') =
             map (\<lambda>r. (message r, details r)) (errorRecords s) @
             [(''Failed processing '' @ file_name (item_file b) @ '': '' @
                 or_else (thrown_message e2) ''Unknown error occurred'', Some e2)]"
    using assms
    by (simp add: run_def threeItemRun_def stream_updates streamed_def merge_def errorRecords_def
        engine_defs)
  have t: "tasks ?s' (nextTask s) = None"
    using assms
    by (simp add: run_def threeItemRun_def stream_updates streamed_def merge_def engine_defs)
  have p: "\<not> isProcessing ?s'"
    using assms
    by (simp add: run_def threeItemRun_def stream_updates streamed_def merge_def engine_defs)
  have r: "\<not> isProcessingRef ?s'"
    using assms
    by (simp add: run_def threeItemRun_def stream_updates streamed_def merge_def engine_defs)
  from i l t p r show ?thesis by (intro conjI)
qed


theorem failure_isolation_witness:
  "map status (items (run exampleWorld threePending
       (threeItemRun 0 [''a'', ''a cat''] ''a cat'' ''https://img/1'' [] (Error ''Analysis failed: 500'')
          [] ''an owl'' ''https://img/3''))) = [COMPLETED, ERROR, COMPLETED]
   \<and> map message (errorRecords (run exampleWorld threePending
       (threeItemRun 0 [''a'', ''a cat''] ''a cat'' ''https://img/1'' [] (Error ''Analysis failed: 500'')
          [] ''an owl'' ''https://img/3''))) = [''Failed processing dog.png: Analysis failed: 500'']"
proof -
  have a: "items threePending = [exampleItem ''a'' ''cat.png'' PENDING, exampleItem ''b'' ''dog.png'' PENDING,
     exampleItem ''c'' ''owl.png'' PENDING]" "\<not> isProcessing threePending" "\<not> isProcessingRef threePending"
    "nextTask threePending = 0" "errorRecords threePending = []"
    by (simp_all add: threePending_def exampleState_def initialState_def errorRecords_def)
  have b: "status (exampleItem ''a'' ''cat.png'' PENDING) = PENDING"
    "status (exampleItem ''b'' ''dog.png'' PENDING) = PENDING"
    "status (exampleItem ''c'' ''owl.png'' PENDING) = PENDING"
    "item_id (exampleItem ''a'' ''cat.png'' PENDING) \<noteq> item_id (exampleItem ''b'' ''dog.png'' PENDING)"
    "item_id (exampleItem ''a'' ''cat.png'' PENDING) \<noteq> item_id (exampleItem ''c'' ''owl.png'' PENDING)"
    "item_id (exampleItem ''b'' ''dog.png'' PENDING) \<noteq> item_id (exampleItem ''c'' ''owl.png'' PENDING)"
    by (simp_all add: exampleItem_def)
  note t = failure_isolation [OF a(1) b a(2) a(3), of exampleWorld "[''a'', ''a cat'']" "''a cat''"
      "''https://img/1''" "[]" "Error ''Analysis failed: 500''" "[]" "''an owl''" "''https://img/3''"]
  from t have i: "map status (items (run exampleWorld threePending
       (threeItemRun 0 [''a'', ''a cat''] ''a cat'' ''https://img/1'' [] (Error ''Analysis failed: 500'')
          [] ''an owl'' ''https://img/3''))) = [COMPLETED, ERROR, COMPLETED]"
    by (simp add: a(4))
  from t have "map (\<lambda>r. (message r, details r)) (errorRecords (run exampleWorld threePending
       (threeItemRun 0 [''a'', ''a cat''] ''a cat'' ''https://img/1'' [] (Error ''Analysis failed: 500'')
          [] ''an owl'' ''https://img/3''))) =
       [(''Failed processing dog.png: Analysis failed: 500'', Some (Error ''Analysis failed: 500''))]"
    by (simp add: a(4) a(5) exampleItem_def)
  then have "map fst (map (\<lambda>r. (message r, details r)) (errorRecords (run exampleWorld threePending
       (threeItemRun 0 [''a'', ''a cat''] ''a cat'' ''https://img/1'' [] (Error ''Analysis failed: 500'')
          [] ''an owl'' ''https://img/3'')))) = [''Failed processing dog.png: Analysis failed: 500'']"
    by simp
  then have m: "map message (errorRecords (run exampleWorld threePending
       (threeItemRun 0 [''a'', ''a cat''] ''a cat'' ''https://img/1'' [] (Error ''Analysis failed: 500'')
          [] ''an owl'' ''https://img/3''))) = [''Failed processing dog.png: Analysis failed: 500'']"
    by (simp add: comp_def)
  from i m show ?thesis by (intro conjI)
qed


text \<open>Facts about a stop request while an item is in flight.\<close>

lemma stop_analysis_items:
  assumes "tasks s h = Some (AwaitingAnalysis cur)" "isProcessing s" "items s \<noteq> []"
  shows "items (run w s (stopDuringAnalysis h ps ra rg)) =
     map (\<lambda>item. if item_id item = item_id cur then merge item (outcome ps ra rg) else item) (items s)"
  using assms
  by (cases ra; cases rg)
     (simp_all add: run_def stopDuringAnalysis_def stopProcessing_def outcome_def stream_updates
       streamed_def merge_def engine_defs comp_def cong: if_cong split: option.splits)


lemma stop_analysis_rest:
  assumes "tasks s h = Some (AwaitingAnalysis cur)" "isProcessing s" "items s \<noteq> []"
  shows "tasks (run w s (stopDuringAnalysis h ps ra rg)) h = None
     \<and> \<not> isProcessingRef (run w s (stopDuringAnalysis h ps ra rg))"
  using assms
  by (cases ra; cases rg)
     (simp_all add: run_def stopDuringAnalysis_def stopProcessing_def stream_updates
       streamed_def engine_defs split: option.splits)

lemma stop_generation_items:
  assumes "tasks s h = Some (AwaitingGeneration cur d)" "isProcessing s" "items s \<noteq> []"
  shows "items (run w s (stopDuringGeneration h rg)) =
     map (\<lambda>item. if item_id item = item_id cur then merge item (outcomeOfGeneration rg) else item) (items s)"
  using assms
  by (cases rg)
     (simp_all add: run_def stopDuringGeneration_def stopProcessing_def outcomeOfGeneration_def
       merge_def engine_defs comp_def cong: if_cong split: option.splits)

lemma stop_generation_rest:
  assumes "tasks s h = Some (AwaitingGeneration cur d)" "isProcessing s" "items s \<noteq> []"
  shows "tasks (run w s (stopDuringGeneration h rg)) h = None
     \<and> \<not> isProcessingRef (run w s (stopDuringGeneration h rg))"
  using assms
  by (cases rg)
     (simp_all add: run_def stopDuringGeneration_def stopProcessing_def engine_defs split: option.splits)

lemma outcome_terminal:
  "p_status (outcome ps ra rg) = Some COMPLETED \<or> p_status (outcome ps ra rg) = Some ERROR"
  by (simp add: outcome_def streamed_def noUpdates_def split: sum.splits)

lemma outcomeOfGeneration_terminal:
  "p_status (outcomeOfGeneration rg) = Some COMPLETED \<or> p_status (outcomeOfGeneration rg) = Some ERROR"
  by (simp add: outcomeOfGeneration_def noUpdates_def split: sum.splits)

lemma settled_item_view:
  assumes i: "xs' = map (\<lambda>item. if item_id item = i then merge item u else item) xs"
    and u: "p_status u = Some COMPLETED \<or> p_status u = Some ERROR"
    and n: "n < length xs" "item_id (xs ! n) = i"
  shows "(status (xs' ! n) = COMPLETED \<or> status (xs' ! n) = ERROR)
       \<and> length xs' = length xs
       \<and> (\<forall>k < length xs. item_id (xs ! k) \<noteq> i \<longrightarrow> xs' ! k = xs ! k)"
  using assms by auto

text \<open>
  C2: \<open>stop()\<close> is requested while the call \<open>h\<close> of the driver awaits the analysis (or the
  generation) of the item at position \<open>n\<close>, and no other command follows. Whatever the
  stream delivers and however the stage calls settle, when the delay has elapsed the
  item is \<open>COMPLETED\<close> or \<open>ERROR\<close>, every item with another id is exactly what it was at
  the stop request (a \<open>PENDING\<close> item is still \<open>PENDING\<close>), and the loop has exited.
\<close>

theorem stop_lets_item_finish:
  assumes "isProcessing s" and "n < length (items s)" and "item_id (items s ! n) = item_id cur"
  shows "(tasks s h = Some (AwaitingAnalysis cur) \<longrightarrow>
            (status (items (run w s (stopDuringAnalysis h ps ra rg)) ! n) = COMPLETED
               \<or> status (items (run w s (stopDuringAnalysis h ps ra rg)) ! n) = ERROR)
            \<and> length (items (run w s (stopDuringAnalysis h ps ra rg))) = length (items s)
            \<and> (\<forall>k < length (items s). item_id (items s ! k) \<noteq> item_id cur \<longrightarrow>
                  items (run w s (stopDuringAnalysis h ps ra rg)) ! k = items s ! k)
            \<and> tasks (run w s (stopDuringAnalysis h ps ra rg)) h = None
            \<and> \<not> isProcessingRef (run w s (stopDuringAnalysis h ps ra rg)))
       \<and> (tasks s h = Some (AwaitingGeneration cur d) \<longrightarrow>
            (status (items (run w s (stopDuringGeneration h rg)) ! n) = COMPLETED
               \<or> status (items (run w s (stopDuringGeneration h rg)) ! n) = ERROR)
            \<and> length (items (run w s (stopDuringGeneration h rg))) = length (items s)
            \<and> (\<forall>k < length (items s). item_id (items s ! k) \<noteq> item_id cur \<longrightarrow>
                  items (run w s (stopDuringGeneration h rg)) ! k = items s ! k)
            \<and> tasks (run w s (stopDuringGeneration h rg)) h = None
            \<and> \<not> isProcessingRef (run w s (stopDuringGeneration h rg)))"
proof (intro conjI impI)
  from assms(2) have ne: "items s \<noteq> []" by auto
  {
    assume t: "tasks s h = Some (AwaitingAnalysis cur)"
    note v = settled_item_view [OF stop_analysis_items [OF t assms(1) ne, of w ps ra rg]
        outcome_terminal assms(2) assms(3)]
    note r = stop_analysis_rest [OF t assms(1) ne, of w ps ra rg]
    from v show "status (items (run w s (stopDuringAnalysis h ps ra rg)) ! n) = COMPLETED
               \<or> status (items (run w s (stopDuringAnalysis h ps ra rg)) ! n) = ERROR" by blast
    from v show "length (items (run w s (stopDuringAnalysis h ps ra rg))) = length (items s)" by blast
    from v show "\<forall>k < length (items s). item_id (items s ! k) \<noteq> item_id cur \<longrightarrow>
                  items (run w s (stopDuringAnalysis h ps ra rg)) ! k = items s ! k" by blast
    from r show "tasks (run w s (stopDuringAnalysis h ps ra rg)) h = None" by blast
    from r show "\<not> isProcessingRef (run w s (stopDuringAnalysis h ps ra rg))" by blast
  }
  {
    assume t: "tasks s h = Some (AwaitingGeneration cur d)"
    note v = settled_item_view [OF stop_generation_items [OF t assms(1) ne, of w rg]
        outcomeOfGeneration_terminal assms(2) assms(3)]
    note r = stop_generation_rest [OF t assms(1) ne, of w rg]
    from v show "status (items (run w s (stopDuringGeneration h rg)) ! n) = COMPLETED
               \<or> status (items (run w s (stopDuringGeneration h rg)) ! n) = ERROR" by blast
    from v show "length (items (run w s (stopDuringGeneration h rg))) = length (items s)" by blast
    from v show "\<forall>k < length (items s). item_id (items s ! k) \<noteq> item_id cur \<longrightarrow>
                  items (run w s (stopDuringGeneration h rg)) ! k = items s ! k" by blast
    from r show "tasks (run w s (stopDuringGeneration h rg)) h = None" by blast
    from r show "\<not> isProcessingRef (run w s (stopDuringGeneration h rg))" by blast
  }
qed


theorem stop_lets_item_finish_witness:
  "tasks analyzingState 0 = Some (AwaitingAnalysis (exampleItem ''a'' ''cat.png'' PENDING))
   \<and> tasks (run exampleWorld analyzingState
        (stopDuringAnalysis 0 [''a'', ''a cat''] (Inr ''a cat'') (Inr ''https://img/1''))) 0 = None
   \<and> items (run exampleWorld analyzingState
        (stopDuringAnalysis 0 [''a'', ''a cat''] (Inr ''a cat'') (Inr ''https://img/1''))) ! 1 =
       exampleItem ''b'' ''dog.png'' PENDING
   \<and> tasks generatingState 0 = Some (AwaitingGeneration (exampleItem ''a'' ''cat.png'' PENDING) ''a cat'')
   \<and> tasks (run exampleWorld generatingState (stopDuringGeneration 0 (Inl (Error ''API Error 500'')))) 0 = None
   \<and> items (run exampleWorld generatingState (stopDuringGeneration 0 (Inl (Error ''API Error 500'')))) ! 1 =
       exampleItem ''b'' ''dog.png'' PENDING"
proof -
  have a: "isProcessing analyzingState" "0 < length (items analyzingState)"
    "item_id (items analyzingState ! 0) = item_id (exampleItem ''a'' ''cat.png'' PENDING)"
    "tasks analyzingState 0 = Some (AwaitingAnalysis (exampleItem ''a'' ''cat.png'' PENDING))"
    "items analyzingState ! 1 = exampleItem ''b'' ''dog.png'' PENDING"
    "item_id (items analyzingState ! 1) \<noteq> item_id (exampleItem ''a'' ''cat.png'' PENDING)"
    "length (items analyzingState) = 2"
    by (simp_all add: analyzingState_def exampleState_def exampleItem_def initialState_def)
  have g: "isProcessing generatingState" "0 < length (items generatingState)"
    "item_id (items generatingState ! 0) = item_id (exampleItem ''a'' ''cat.png'' PENDING)"
    "tasks generatingState 0 = Some (AwaitingGeneration (exampleItem ''a'' ''cat.png'' PENDING) ''a cat'')"
    "items generatingState ! 1 = exampleItem ''b'' ''dog.png'' PENDING"
    "item_id (items generatingState ! 1) \<noteq> item_id (exampleItem ''a'' ''cat.png'' PENDING)"
    "length (items generatingState) = 2"
    by (simp_all add: generatingState_def exampleState_def exampleItem_def initialState_def)
  show ?thesis
    using stop_lets_item_finish [OF a(1) a(2) a(3), where h = 0 and w = exampleWorld
          and ps = "[''a'', ''a cat'']" and ra = "Inr ''a cat''" and rg = "Inr ''https://img/1''"
          and d = "''a cat''"]
      stop_lets_item_finish [OF g(1) g(2) g(3), where h = 0 and w = exampleWorld
          and ps = "[]" and ra = "Inr ''a cat''" and rg = "Inl (Error ''API Error 500'')"
          and d = "''a cat''"]
      a(4-7) g(4-7)
    by simp
qed

section \<open>Facts about the stage clients\<close>

lemma truthy_absentOrEmpty: "truthy v = (\<not> absentOrEmpty v)"
  by (cases v) (simp_all add: absentOrEmpty_def)

lemma or_else_empty: "or_else v d = [] \<longleftrightarrow> absentOrEmpty v \<and> d = []"
  by (cases v) (auto simp: absentOrEmpty_def)

lemma example_keys:
  "getEnv exampleEnv ''API_KEY'' = ''k-env''" "getEnv emptyEnv ''API_KEY'' = []"
  "absentOrEmpty (apiKey (analysisConfig DEFAULT_SETTINGS))"
  "absentOrEmpty (apiKey (generationConfig DEFAULT_SETTINGS))"
  by (simp_all add: getEnv_def exampleEnv_def emptyEnv_def absentOrEmpty_def DEFAULT_SETTINGS_def)

lemma getEnv_API_KEY:
  "getEnv env ''API_KEY'' =
     (if \<not> absentOrEmpty (viteKey env) then the (viteKey env)
      else if \<not> absentOrEmpty (nodeKey env) then the (nodeKey env) else [])"
proof -
  have v: "''VITE_'' @ ''API_KEY'' = ''VITE_API_KEY''" by simp
  have n: "truthy x \<Longrightarrow> or_else x [] = the x" for x by (cases x) simp_all
  show ?thesis
    unfolding getEnv_def v Let_def viteKey_def [symmetric] nodeKey_def [symmetric]
    by (simp add: truthy_absentOrEmpty n [unfolded truthy_absentOrEmpty])
qed

lemma resolved_key: "or_else (apiKey config) (getEnv env ''API_KEY'') = credential env config"
  by (simp add: credential_def)

lemma credential_resolution:
  "credential env config =
     (if \<not> absentOrEmpty (apiKey config) then the (apiKey config)
      else if \<not> absentOrEmpty (viteKey env) then the (viteKey env)
      else if \<not> absentOrEmpty (nodeKey env) then the (nodeKey env)
      else [])"
  by (cases "apiKey config") (simp_all add: credential_def getEnv_API_KEY absentOrEmpty_def)

lemma getEnv_API_KEY_empty:
  "getEnv env ''API_KEY'' = [] \<longleftrightarrow> absentOrEmpty (viteKey env) \<and> absentOrEmpty (nodeKey env)"
  by (cases "viteKey env"; cases "nodeKey env") (auto simp: getEnv_API_KEY absentOrEmpty_def)

lemma credential_empty:
  "credential env config = [] \<longleftrightarrow> absentOrEmpty (apiKey config) \<and> getEnv env ''API_KEY'' = []"
  by (simp add: credential_def or_else_empty)

lemma describeImage_keyed:
  "describeImage env reader sdk f config =
     (if credential env config = []
      then ([], Some (Inl (Error ''API Key for Analysis step is missing. Please check Settings.'')))
      else (case sdk (clientConfigFor (credential env config) config) of
              ConstructorThrows e \<Rightarrow> ([], Some (Inl e))
            | Client generateContentStream \<Rightarrow>
           (case fileToBase64 (reader f) of
              Inl e \<Rightarrow> ([], Some (Inl e))
            | Inr base64Data \<Rightarrow>
                (case generateContentStream (contentRequestFor config f base64Data) of
                   RequestRejected e \<Rightarrow> ([], Some (Inl (analysisFailure config e)))
                 | RequestStalls \<Rightarrow> ([], None)
                 | Stream chunks ending \<Rightarrow>
                     (let (updates, fullText) = consume [] chunks in
                      case ending of
                        StreamDone \<Rightarrow>
                          (updates, Some (Inr (or_else (Some fullText) ''No description generated.'')))
                      | StreamThrows e \<Rightarrow> (updates, Some (Inl (analysisFailure config e)))
                      | StreamStalls \<Rightarrow> (updates, None))))))"
  unfolding describeImage_def resolved_key Let_def clientConfigFor_def contentRequestFor_def
  by (rule refl)

lemma generateVariation_keyed:
  "generateVariation env fetch errorMessageOf originalFile prompt config =
     (if credential env config = [] then Some (Inl (Error ''API Key for Generation step is missing.''))
      else
        (case fetchWithTimeout env fetch (generationRequestFor (credential env config) config prompt) 120000 of
              Inl e \<Rightarrow> Some (Inl (rethrow e))
            | Inr response \<Rightarrow>
                if \<not> ok response
                then (case body_text response of
                        Fulfilled errText \<Rightarrow>
                          Some (Inl (rethrow (Error (detailedError errorMessageOf response errText))))
                      | Rejected e \<Rightarrow> Some (Inl (rethrow e))
                      | Unsettled \<Rightarrow> None)
                else (case body_json response of
                        Fulfilled data \<Rightarrow>
                          if truthy (first_url data) then Some (Inr (the (first_url data)))
                          else if truthy (first_b64_json data)
                          then Some (Inr (''data:image/png;base64,'' @ the (first_b64_json data)))
                          else Some (Inl (rethrow (Error (''Invalid Response Structure: '' @
                                 take 200 (stringified data) @ ''...''))))
                      | Rejected e \<Rightarrow> Some (Inl (rethrow e))
                      | Unsettled \<Rightarrow> None)))"
  unfolding generateVariation_def resolved_key Let_def generationRequestFor_def
  by (rule refl)


lemma rethrow_says: "msg \<noteq> [] \<Longrightarrow> (rethrow e = Error msg) = says msg e"
  by (cases e) (auto simp: rethrow_def says_def)

lemma rethrow_Error: "rethrow (Error m) = Error m"
  by (simp add: rethrow_def)

lemma reader_never_says_missing:
  "fileToBase64 r = Inl e \<Longrightarrow>
     \<not> says ''API Key for Analysis step is missing. Please check Settings.'' e"
  by (cases r) (auto simp: fileToBase64_def says_def split: list.splits)

lemma analysisFailure_not_missing:
  "analysisFailure config e \<noteq> Error ''API Key for Analysis step is missing. Please check Settings.''"
  by (simp add: analysisFailure_def Let_def)

lemma detailedError_not_missing:
  "detailedError errorMessageOf response errText \<noteq> ''API Key for Generation step is missing.''"
  by (simp add: detailedError_def Let_def)

lemma analysis_missing_iff:
  assumes "\<not> clientSays ''API Key for Analysis step is missing. Please check Settings.''
               (sdk (clientConfigFor (credential env config) config))"
  shows "snd (describeImage env reader sdk f config) =
           Some (Inl (Error ''API Key for Analysis step is missing. Please check Settings.''))
         \<longleftrightarrow> credential env config = []"
proof (cases "credential env config = []")
  case True
  then show ?thesis by (simp add: describeImage_keyed)
next
  case False
  have "snd (describeImage env reader sdk f config) \<noteq>
           Some (Inl (Error ''API Key for Analysis step is missing. Please check Settings.''))"
  proof (cases "sdk (clientConfigFor (credential env config) config)")
    case (ConstructorThrows e)
    with assms False show ?thesis
      by (auto simp: describeImage_keyed clientSays_def says_def)
  next
    case (Client g)
    show ?thesis
    proof (cases "fileToBase64 (reader f)")
      case (Inl e)
      with reader_never_says_missing [OF Inl] Client False show ?thesis
        by (auto simp: describeImage_keyed says_def)
    next
      case (Inr b)
      with Client False show ?thesis
        by (auto simp: describeImage_keyed analysisFailure_not_missing
            split: SdkBehaviour.splits StreamEnd.splits prod.splits)
    qed
  qed
  with False show ?thesis by simp
qed

lemma fetchWithTimeout_cases:
  "fetchWithTimeout env fetch request timeout = Inl e \<Longrightarrow>
     e = abortError env \<or> (\<exists>t. fetch request = Fails t e)"
  "fetchWithTimeout env fetch request timeout = Inr response \<Longrightarrow>
     \<exists>t. fetch request = Responds t response"
  by (auto simp: fetchWithTimeout_def split: FetchBehaviour.splits if_splits)

lemma generation_missing_iff:
  assumes a: "\<not> says ''API Key for Generation step is missing.'' (abortError env)"
    and b: "\<not> fetchSays ''API Key for Generation step is missing.''
               (fetch (generationRequestFor (credential env config) config prompt))"
  shows "generateVariation env fetch errorMessageOf f prompt config =
           Some (Inl (Error ''API Key for Generation step is missing.''))
         \<longleftrightarrow> credential env config = []"
proof (cases "credential env config = []")
  case True
  then show ?thesis by (simp add: generateVariation_keyed)
next
  case False
  let ?req = "generationRequestFor (credential env config) config prompt"
  have "generateVariation env fetch errorMessageOf f prompt config \<noteq>
           Some (Inl (Error ''API Key for Generation step is missing.''))"
  proof (cases "fetchWithTimeout env fetch ?req 120000")
    case (Inl e)
    from fetchWithTimeout_cases(1) [OF Inl] a b
    have "\<not> says ''API Key for Generation step is missing.'' e"
      by (auto simp: fetchSays_def)
    with Inl False show ?thesis
      by (simp add: generateVariation_keyed rethrow_says)
  next
    case (Inr r)
    from fetchWithTimeout_cases(2) [OF Inr] obtain t where t: "fetch ?req = Responds t r" by blast
    with b have c: "\<forall>e. body_text r = Rejected e \<longrightarrow> \<not> says ''API Key for Generation step is missing.'' e"
      "\<forall>e. body_json r = Rejected e \<longrightarrow> \<not> says ''API Key for Generation step is missing.'' e"
      by (auto simp: fetchSays_def)
    show ?thesis
    proof (cases "ok r")
      case True
      with Inr False c(2) show ?thesis
        by (cases "body_json r")
           (simp_all add: generateVariation_keyed rethrow_says rethrow_Error)
    next
      case nok: False
      with Inr False c(1) show ?thesis
        by (cases "body_text r")
           (simp_all add: generateVariation_keyed rethrow_says rethrow_Error detailedError_not_missing)
    qed
  qed
  with False show ?thesis by simp
qed

lemma fallback_same_call:
  assumes "absentOrEmpty (apiKey config)" "credential env config \<noteq> []"
  shows "describeImage env reader sdk f config =
           describeImage env reader sdk f (config\<lparr>apiKey := Some (credential env config)\<rparr>)"
    and "generateVariation env fetch errorMessageOf f prompt config =
           generateVariation env fetch errorMessageOf f prompt
             (config\<lparr>apiKey := Some (credential env config)\<rparr>)"
proof -
  let ?c = "config\<lparr>apiKey := Some (credential env config)\<rparr>"
  from assms have k: "credential env ?c = credential env config"
    by (simp add: credential_def absentOrEmpty_def)
  have cc: "clientConfigFor key ?c = clientConfigFor key config" for key
    by (simp add: clientConfigFor_def)
  have cr: "contentRequestFor ?c = contentRequestFor config"
    by (intro ext) (simp add: contentRequestFor_def)
  have af: "analysisFailure ?c = analysisFailure config"
    by (rule ext) (simp add: analysisFailure_def)
  have gr: "generationRequestFor key ?c = generationRequestFor key config" for key
    by (intro ext) (simp add: generationRequestFor_def)
  show "describeImage env reader sdk f config = describeImage env reader sdk f ?c"
    unfolding describeImage_keyed k cc cr af by (rule refl)
  show "generateVariation env fetch errorMessageOf f prompt config =
           generateVariation env fetch errorMessageOf f prompt ?c"
    unfolding generateVariation_keyed k gr by (rule refl)
qed

lemma same_credential_same_call:
  assumes "credential env config = credential env' config"
  shows "describeImage env reader sdk f config = describeImage env' reader sdk f config"
    and "abortError env = abortError env' \<Longrightarrow>
         generateVariation env fetch errorMessageOf f prompt config =
           generateVariation env' fetch errorMessageOf f prompt config"
proof -
  show "describeImage env reader sdk f config = describeImage env' reader sdk f config"
    unfolding describeImage_keyed assms by (rule refl)
  assume "abortError env = abortError env'"
  then have "fetchWithTimeout env = fetchWithTimeout env'"
    by (intro ext) (simp add: fetchWithTimeout_def cong: FetchBehaviour.case_cong if_cong)
  then show "generateVariation env fetch errorMessageOf f prompt config =
           generateVariation env' fetch errorMessageOf f prompt config"
    unfolding generateVariation_keyed assms by simp
qed

lemma keyed_examples:
  "credential exampleEnv (analysisConfig DEFAULT_SETTINGS) = ''k-env''"
  "credential viteEnv (analysisConfig DEFAULT_SETTINGS) = ''k-env''"
  "credential emptyEnv (analysisConfig DEFAULT_SETTINGS) = []"
  "credential exampleEnv ((analysisConfig DEFAULT_SETTINGS)\<lparr>apiKey := Some ''k-cfg''\<rparr>) = ''k-cfg''"
  "getEnv viteEnv ''API_KEY'' = ''k-env''"
  by (simp_all add: credential_def getEnv_def exampleEnv_def emptyEnv_def viteEnv_def
      DEFAULT_SETTINGS_def)

text \<open>
  C9: the credential of a stage call is the \<open>apiKey\<close> of the stage config when that is
  present and not empty, otherwise \<open>getEnv('API_KEY')\<close>, that is, \<open>VITE_API_KEY\<close> of
  \<open>import.meta.env\<close> when present and not empty, otherwise \<open>API_KEY\<close> of \<open>process.env\<close>,
  otherwise the empty string. When the config key and the environment's key are both
  absent or empty, each call gives its missing-credential error before it does anything
  else. Conversely, for every SDK whose constructor does not itself throw a value with
  that very message, \<open>describeImage\<close> gives the error only then; and for every network
  that does not itself fail with that very message (nor the timeout), \<open>generateVariation\<close>
  gives the error only then. With a credential the call goes out with it: its trimmed
  text is the \<open>apiKey\<close> of the SDK client and follows \<open>Bearer\<close> in the \<open>Authorization\<close>
  header, and what the SDK and the network answer to that client and that request
  decides the result. The environment matters through the credential only, and a config
  without a key is served, with the environment's key, exactly like a config that holds
  that key.
\<close>

theorem credential_fallback:
  "credential env config =
     (if \<not> absentOrEmpty (apiKey config) then the (apiKey config)
      else if \<not> absentOrEmpty (viteKey env) then the (viteKey env)
      else if \<not> absentOrEmpty (nodeKey env) then the (nodeKey env)
      else [])
   \<and> (credential env config = [] \<longleftrightarrow> absentOrEmpty (apiKey config) \<and> getEnv env ''API_KEY'' = [])
   \<and> (getEnv env ''API_KEY'' = [] \<longleftrightarrow> absentOrEmpty (viteKey env) \<and> absentOrEmpty (nodeKey env))
   \<and> (absentOrEmpty (apiKey config) \<and> getEnv env ''API_KEY'' = [] \<longrightarrow>
        describeImage env reader sdk f config =
          ([], Some (Inl (Error ''API Key for Analysis step is missing. Please check Settings.'')))
        \<and> generateVariation env fetch errorMessageOf f prompt config =
          Some (Inl (Error ''API Key for Generation step is missing.'')))
   \<and> (\<not> clientSays ''API Key for Analysis step is missing. Please check Settings.''
           (sdk (clientConfigFor (credential env config) config)) \<longrightarrow>
        (snd (describeImage env reader sdk f config) =
           Some (Inl (Error ''API Key for Analysis step is missing. Please check Settings.''))
         \<longleftrightarrow> absentOrEmpty (apiKey config) \<and> getEnv env ''API_KEY'' = []))
   \<and> (\<not> says ''API Key for Generation step is missing.'' (abortError env)
        \<and> \<not> fetchSays ''API Key for Generation step is missing.''
              (fetch (generationRequestFor (credential env config) config prompt)) \<longrightarrow>
        (generateVariation env fetch errorMessageOf f prompt config =
           Some (Inl (Error ''API Key for Generation step is missing.''))
         \<longleftrightarrow> absentOrEmpty (apiKey config) \<and> getEnv env ''API_KEY'' = []))
   \<and> cc_apiKey (clientConfigFor (credential env config) config) = trim (credential env config)
   \<and> req_authorization (generationRequestFor (credential env config) config prompt) =
       ''Bearer '' @ trim (credential env config)
   \<and> (credential env config \<noteq> []
        \<and> sdk (clientConfigFor (credential env config) config) = ConstructorThrows constructorError \<longrightarrow>
        describeImage env reader sdk f config = ([], Some (Inl constructorError)))
   \<and> (credential env config \<noteq> []
        \<and> sdk (clientConfigFor (credential env config) config) = Client generateContentStream
        \<and> fileToBase64 (reader f) = Inr base64Data
        \<and> generateContentStream (contentRequestFor config f base64Data) = Stream chunks StreamDone \<longrightarrow>
        describeImage env reader sdk f config =
          (fst (consume [] chunks),
           Some (Inr (or_else (Some (snd (consume [] chunks))) ''No description generated.''))))
   \<and> (credential env config \<noteq> []
        \<and> fetch (generationRequestFor (credential env config) config prompt) = Fails t networkError
        \<and> t < 120000 \<longrightarrow>
        generateVariation env fetch errorMessageOf f prompt config = Some (Inl (rethrow networkError)))
   \<and> (credential env config \<noteq> []
        \<and> fetch (generationRequestFor (credential env config) config prompt) = Responds t response
        \<and> t < 120000 \<and> ok response \<and> body_json response = Fulfilled data
        \<and> truthy (first_url data) \<longrightarrow>
        generateVariation env fetch errorMessageOf f prompt config = Some (Inr (the (first_url data))))
   \<and> (credential env config = credential env' config \<longrightarrow>
        describeImage env reader sdk f config = describeImage env' reader sdk f config
        \<and> (abortError env = abortError env' \<longrightarrow>
             generateVariation env fetch errorMessageOf f prompt config =
               generateVariation env' fetch errorMessageOf f prompt config))
   \<and> (absentOrEmpty (apiKey config) \<and> getEnv env ''API_KEY'' \<noteq> [] \<longrightarrow>
        credential env config = getEnv env ''API_KEY''
        \<and> describeImage env reader sdk f config =
          describeImage env reader sdk f (config\<lparr>apiKey := Some (getEnv env ''API_KEY'')\<rparr>)
        \<and> generateVariation env fetch errorMessageOf f prompt config =
          generateVariation env fetch errorMessageOf f prompt
            (config\<lparr>apiKey := Some (getEnv env ''API_KEY'')\<rparr>))"
proof -
  note r = credential_resolution [of env config]
  note k = credential_empty [of env config]
  note k' = getEnv_API_KEY_empty [of env]
  have a1: "absentOrEmpty (apiKey config) \<and> getEnv env ''API_KEY'' = [] \<longrightarrow>
        describeImage env reader sdk f config =
          ([], Some (Inl (Error ''API Key for Analysis step is missing. Please check Settings.'')))
        \<and> generateVariation env fetch errorMessageOf f prompt config =
          Some (Inl (Error ''API Key for Generation step is missing.''))"
    unfolding k [symmetric] by (simp add: describeImage_keyed generateVariation_keyed)
  have a2: "\<not> clientSays ''API Key for Analysis step is missing. Please check Settings.''
           (sdk (clientConfigFor (credential env config) config)) \<longrightarrow>
        (snd (describeImage env reader sdk f config) =
           Some (Inl (Error ''API Key for Analysis step is missing. Please check Settings.''))
         \<longleftrightarrow> absentOrEmpty (apiKey config) \<and> getEnv env ''API_KEY'' = [])"
    unfolding k [symmetric] using analysis_missing_iff by blast
  have g2: "\<not> says ''API Key for Generation step is missing.'' (abortError env)
        \<and> \<not> fetchSays ''API Key for Generation step is missing.''
              (fetch (generationRequestFor (credential env config) config prompt)) \<longrightarrow>
        (generateVariation env fetch errorMessageOf f prompt config =
           Some (Inl (Error ''API Key for Generation step is missing.''))
         \<longleftrightarrow> absentOrEmpty (apiKey config) \<and> getEnv env ''API_KEY'' = [])"
    unfolding k [symmetric] using generation_missing_iff by blast
  have a5: "cc_apiKey (clientConfigFor (credential env config) config) = trim (credential env config)"
    by (simp add: clientConfigFor_def)
  have g4: "req_authorization (generationRequestFor (credential env config) config prompt) =
       ''Bearer '' @ trim (credential env config)"
    by (simp add: generationRequestFor_def)
  have a3: "credential env config \<noteq> []
        \<and> sdk (clientConfigFor (credential env config) config) = ConstructorThrows constructorError \<longrightarrow>
        describeImage env reader sdk f config = ([], Some (Inl constructorError))"
    by (simp add: describeImage_keyed)
  have a4: "credential env config \<noteq> []
        \<and> sdk (clientConfigFor (credential env config) config) = Client generateContentStream
        \<and> fileToBase64 (reader f) = Inr base64Data
        \<and> generateContentStream (contentRequestFor config f base64Data) = Stream chunks StreamDone \<longrightarrow>
        describeImage env reader sdk f config =
          (fst (consume [] chunks),
           Some (Inr (or_else (Some (snd (consume [] chunks))) ''No description generated.'')))"
    by (simp add: describeImage_keyed split: prod.splits)
  have g3b: "credential env config \<noteq> []
        \<and> fetch (generationRequestFor (credential env config) config prompt) = Fails t networkError
        \<and> t < 120000 \<longrightarrow>
        generateVariation env fetch errorMessageOf f prompt config = Some (Inl (rethrow networkError))"
    by (simp add: generateVariation_keyed fetchWithTimeout_def)
  have g3: "credential env config \<noteq> []
        \<and> fetch (generationRequestFor (credential env config) config prompt) = Responds t response
        \<and> t < 120000 \<and> ok response \<and> body_json response = Fulfilled data
        \<and> truthy (first_url data) \<longrightarrow>
        generateVariation env fetch errorMessageOf f prompt config = Some (Inr (the (first_url data)))"
    by (simp add: generateVariation_keyed fetchWithTimeout_def)
  have ei: "credential env config = credential env' config \<longrightarrow>
        describeImage env reader sdk f config = describeImage env' reader sdk f config
        \<and> (abortError env = abortError env' \<longrightarrow>
             generateVariation env fetch errorMessageOf f prompt config =
               generateVariation env' fetch errorMessageOf f prompt config)"
    using same_credential_same_call by blast
  have fb: "absentOrEmpty (apiKey config) \<and> getEnv env ''API_KEY'' \<noteq> [] \<longrightarrow>
        credential env config = getEnv env ''API_KEY''
        \<and> describeImage env reader sdk f config =
          describeImage env reader sdk f (config\<lparr>apiKey := Some (getEnv env ''API_KEY'')\<rparr>)
        \<and> generateVariation env fetch errorMessageOf f prompt config =
          generateVariation env fetch errorMessageOf f prompt
            (config\<lparr>apiKey := Some (getEnv env ''API_KEY'')\<rparr>)"
  proof (intro impI)
    assume h: "absentOrEmpty (apiKey config) \<and> getEnv env ''API_KEY'' \<noteq> []"
    then have c: "credential env config = getEnv env ''API_KEY''"
      by (auto simp: credential_def absentOrEmpty_def)
    with h have n: "credential env config \<noteq> []" by simp
    from h have ae: "absentOrEmpty (apiKey config)" by simp
    from fallback_same_call(1) [OF ae n, of reader sdk f]
      fallback_same_call(2) [OF ae n, of fetch errorMessageOf f prompt] c
    show "credential env config = getEnv env ''API_KEY''
        \<and> describeImage env reader sdk f config =
          describeImage env reader sdk f (config\<lparr>apiKey := Some (getEnv env ''API_KEY'')\<rparr>)
        \<and> generateVariation env fetch errorMessageOf f prompt config =
          generateVariation env fetch errorMessageOf f prompt
            (config\<lparr>apiKey := Some (getEnv env ''API_KEY'')\<rparr>)"
      by simp
  qed
  from r k k' a1 a2 g2 a5 g4 a3 a4 g3b g3 ei fb show ?thesis by (intro conjI)
qed

theorem credential_fallback_witness:
  "credential exampleEnv (analysisConfig DEFAULT_SETTINGS) = ''k-env''
   \<and> describeImage exampleEnv exampleReader keyedSdk (exampleFile ''cat.png'')
        (analysisConfig DEFAULT_SETTINGS) = ([''a cat''], Some (Inr ''a cat''))
   \<and> generateVariation exampleEnv keyedFetch (\<lambda>errText. None) (exampleFile ''cat.png'') ''a cat''
        (generationConfig DEFAULT_SETTINGS) = Some (Inr ''https://img/1'')
   \<and> describeImage viteEnv exampleReader keyedSdk (exampleFile ''cat.png'')
        (analysisConfig DEFAULT_SETTINGS) = ([''a cat''], Some (Inr ''a cat''))
   \<and> describeImage exampleEnv exampleReader keyedSdk (exampleFile ''cat.png'')
        ((analysisConfig DEFAULT_SETTINGS)\<lparr>apiKey := Some ''k-env''\<rparr>) = ([''a cat''], Some (Inr ''a cat''))
   \<and> describeImage exampleEnv exampleReader keyedSdk (exampleFile ''cat.png'')
        ((analysisConfig DEFAULT_SETTINGS)\<lparr>apiKey := Some ''k-cfg''\<rparr>) =
        ([], Some (Inl (Error ''API key not valid'')))
   \<and> generateVariation exampleEnv keyedFetch (\<lambda>errText. None) (exampleFile ''cat.png'') ''a cat''
        ((generationConfig DEFAULT_SETTINGS)\<lparr>apiKey := Some ''k-cfg''\<rparr>) =
        Some (Inl (Error ''401 Unauthorized''))
   \<and> describeImage emptyEnv exampleReader keyedSdk (exampleFile ''cat.png'')
        (analysisConfig DEFAULT_SETTINGS) =
        ([], Some (Inl (Error ''API Key for Analysis step is missing. Please check Settings.'')))
   \<and> generateVariation emptyEnv keyedFetch (\<lambda>errText. None) (exampleFile ''cat.png'') ''a cat''
        (generationConfig DEFAULT_SETTINGS) =
        Some (Inl (Error ''API Key for Generation step is missing.''))
   \<and> snd (describeImage exampleEnv exampleReader keyedSdk (exampleFile ''cat.png'')
        (analysisConfig DEFAULT_SETTINGS)) \<noteq>
        Some (Inl (Error ''API Key for Analysis step is missing. Please check Settings.''))
   \<and> generateVariation exampleEnv keyedFetch (\<lambda>errText. None) (exampleFile ''cat.png'') ''a cat''
        (generationConfig DEFAULT_SETTINGS) \<noteq>
        Some (Inl (Error ''API Key for Generation step is missing.''))"
proof -
  let ?f = "exampleFile ''cat.png''"
  let ?a = "analysisConfig DEFAULT_SETTINGS"
  let ?g = "generationConfig DEFAULT_SETTINGS"
  let ?stream = "\<lambda>request :: ContentRequest. Stream [Some ''a cat''] StreamDone"
  let ?data = "\<lparr>first_url = Some ''https://img/1'', first_b64_json = None, stringified = []\<rparr>"
  have ka: "credential exampleEnv ?a = ''k-env''" "credential viteEnv ?a = ''k-env''"
    "credential emptyEnv ?a = []"
    "credential exampleEnv (?a\<lparr>apiKey := Some ''k-cfg''\<rparr>) = ''k-cfg''"
    "getEnv exampleEnv ''API_KEY'' = ''k-env''" "getEnv emptyEnv ''API_KEY'' = []"
    "absentOrEmpty (apiKey ?a)"
    by (simp_all add: credential_def getEnv_def exampleEnv_def emptyEnv_def viteEnv_def
        DEFAULT_SETTINGS_def absentOrEmpty_def)
  have kg: "credential exampleEnv ?g = ''k-env''" "credential emptyEnv ?g = []"
    "credential exampleEnv (?g\<lparr>apiKey := Some ''k-cfg''\<rparr>) = ''k-cfg''"
    "absentOrEmpty (apiKey ?g)"
    by (simp_all add: credential_def getEnv_def exampleEnv_def emptyEnv_def
        DEFAULT_SETTINGS_def absentOrEmpty_def)
  have sdk: "keyedSdk (clientConfigFor ''k-env'' c) = Client ?stream"
    "keyedSdk (clientConfigFor ''k-cfg'' c) = ConstructorThrows (Error ''API key not valid'')" for c
    by (simp_all add: keyedSdk_def clientConfigFor_def trim_def isSpace_def)
  have net: "keyedFetch (generationRequestFor ''k-env'' c p) = Responds 10 (exampleResponse (Fulfilled ?data))"
    "keyedFetch (generationRequestFor ''k-cfg'' c p) = Fails 5 (Error ''401 Unauthorized'')" for c p
    by (simp_all add: keyedFetch_def generationRequestFor_def trim_def isSpace_def)
  have ab: "abortError exampleEnv = Error ''signal is aborted without reason''"
    by (simp add: exampleEnv_def)
  have rd: "fileToBase64 (exampleReader ?f) = Inr (Some ''AAAA'')"
    by (simp add: fileToBase64_def exampleReader_def)
  have cs: "consume [] [Some ''a cat''] = ([''a cat''], ''a cat'')"
    by simp
  note inst = credential_fallback [where reader = exampleReader and sdk = keyedSdk and f = ?f
      and fetch = keyedFetch and errorMessageOf = "\<lambda>errText. None" and prompt = "''a cat''"
      and generateContentStream = ?stream and base64Data = "Some ''AAAA''"
      and chunks = "[Some ''a cat'']" and response = "exampleResponse (Fulfilled ?data)"
      and data = ?data and env' = viteEnv]
  note envA = inst [where env = exampleEnv and config = ?a and t = 10
      and constructorError = NotAnError and networkError = NotAnError]
  note envG = inst [where env = exampleEnv and config = ?g and t = 10
      and constructorError = NotAnError and networkError = NotAnError]
  note cfgA = inst [where env = exampleEnv and config = "?a\<lparr>apiKey := Some ''k-cfg''\<rparr>" and t = 5
      and constructorError = "Error ''API key not valid''"
      and networkError = "Error ''401 Unauthorized''"]
  note cfgG = inst [where env = exampleEnv and config = "?g\<lparr>apiKey := Some ''k-cfg''\<rparr>" and t = 5
      and constructorError = "Error ''API key not valid''"
      and networkError = "Error ''401 Unauthorized''"]
  note noneA = inst [where env = emptyEnv and config = ?a and t = 10
      and constructorError = NotAnError and networkError = NotAnError]
  note noneG = inst [where env = emptyEnv and config = ?g and t = 10
      and constructorError = NotAnError and networkError = NotAnError]
  have c1: "describeImage exampleEnv exampleReader keyedSdk ?f ?a = ([''a cat''], Some (Inr ''a cat''))"
    using envA [THEN conjunct2, THEN conjunct2, THEN conjunct2, THEN conjunct2, THEN conjunct2, THEN conjunct2, THEN conjunct2, THEN conjunct2, THEN conjunct2, THEN conjunct1] by (simp add: ka sdk rd cs)
  have c2: "generateVariation exampleEnv keyedFetch (\<lambda>errText. None) ?f ''a cat'' ?g =
      Some (Inr ''https://img/1'')"
    using envG [THEN conjunct2, THEN conjunct2, THEN conjunct2, THEN conjunct2, THEN conjunct2, THEN conjunct2, THEN conjunct2, THEN conjunct2, THEN conjunct2, THEN conjunct2, THEN conjunct2, THEN conjunct1] by (simp add: kg net exampleResponse_def)
  have "describeImage exampleEnv exampleReader keyedSdk ?f ?a =
      describeImage viteEnv exampleReader keyedSdk ?f ?a"
    using envA [THEN conjunct2, THEN conjunct2, THEN conjunct2, THEN conjunct2, THEN conjunct2, THEN conjunct2, THEN conjunct2, THEN conjunct2, THEN conjunct2, THEN conjunct2, THEN conjunct2, THEN conjunct2, THEN conjunct1] by (simp add: ka)
  with c1 have c3: "describeImage viteEnv exampleReader keyedSdk ?f ?a = ([''a cat''], Some (Inr ''a cat''))"
    by simp
  have "describeImage exampleEnv exampleReader keyedSdk ?f ?a =
      describeImage exampleEnv exampleReader keyedSdk ?f (?a\<lparr>apiKey := Some ''k-env''\<rparr>)"
    using envA [THEN conjunct2, THEN conjunct2, THEN conjunct2, THEN conjunct2, THEN conjunct2, THEN conjunct2, THEN conjunct2, THEN conjunct2, THEN conjunct2, THEN conjunct2, THEN conjunct2, THEN conjunct2, THEN conjunct2] by (simp add: ka)
  with c1 have c4: "describeImage exampleEnv exampleReader keyedSdk ?f (?a\<lparr>apiKey := Some ''k-env''\<rparr>) =
      ([''a cat''], Some (Inr ''a cat''))"
    by simp
  have c5: "describeImage exampleEnv exampleReader keyedSdk ?f (?a\<lparr>apiKey := Some ''k-cfg''\<rparr>) =
      ([], Some (Inl (Error ''API key not valid'')))"
    using cfgA [THEN conjunct2, THEN conjunct2, THEN conjunct2, THEN conjunct2, THEN conjunct2, THEN conjunct2, THEN conjunct2, THEN conjunct2, THEN conjunct1] by (simp add: ka sdk)
  have c6: "generateVariation exampleEnv keyedFetch (\<lambda>errText. None) ?f ''a cat''
      (?g\<lparr>apiKey := Some ''k-cfg''\<rparr>) = Some (Inl (Error ''401 Unauthorized''))"
    using cfgG [THEN conjunct2, THEN conjunct2, THEN conjunct2, THEN conjunct2, THEN conjunct2, THEN conjunct2, THEN conjunct2, THEN conjunct2, THEN conjunct2, THEN conjunct2, THEN conjunct1] by (simp add: kg net rethrow_Error)
  have c7: "describeImage emptyEnv exampleReader keyedSdk ?f ?a =
      ([], Some (Inl (Error ''API Key for Analysis step is missing. Please check Settings.'')))"
    using noneA [THEN conjunct2, THEN conjunct2, THEN conjunct2, THEN conjunct1] by (simp add: ka)
  have c8: "generateVariation emptyEnv keyedFetch (\<lambda>errText. None) ?f ''a cat'' ?g =
      Some (Inl (Error ''API Key for Generation step is missing.''))"
    using noneG [THEN conjunct2, THEN conjunct2, THEN conjunct2, THEN conjunct1] by (simp add: ka kg)
  have c9: "snd (describeImage exampleEnv exampleReader keyedSdk ?f ?a) \<noteq>
      Some (Inl (Error ''API Key for Analysis step is missing. Please check Settings.''))"
    using envA [THEN conjunct2, THEN conjunct2, THEN conjunct2, THEN conjunct2, THEN conjunct1] by (simp add: ka sdk clientSays_def)
  have c10: "generateVariation exampleEnv keyedFetch (\<lambda>errText. None) ?f ''a cat'' ?g \<noteq>
      Some (Inl (Error ''API Key for Generation step is missing.''))"
    using envG [THEN conjunct2, THEN conjunct2, THEN conjunct2, THEN conjunct2, THEN conjunct2, THEN conjunct1] by (simp add: ka kg net ab fetchSays_def says_def exampleResponse_def)
  from ka(1) c1 c2 c3 c4 c5 c6 c7 c8 c9 c10 show ?thesis by (intro conjI)
qed


lemma consume_final:
  "consume fullText chunks = (updates, final) \<Longrightarrow>
     (updates = [] \<longrightarrow> final = fullText) \<and> (updates \<noteq> [] \<longrightarrow> final = last updates \<and> final \<noteq> [])"
proof (induction chunks arbitrary: fullText updates final)
  case Nil
  then show ?case by simp
next
  case (Cons chunk chunks)
  show ?case
  proof (cases "truthy chunk")
    case False
    with Cons show ?thesis by simp
  next
    case True
    then obtain c where c: "chunk = Some c" "c \<noteq> []" by (cases chunk) auto
    obtain ups fin where r: "consume (fullText @ c) chunks = (ups, fin)" by (cases "consume (fullText @ c) chunks")
    from Cons.prems True c r have u: "updates = (fullText @ c) # ups" "final = fin" by simp_all
    from Cons.IH [OF r] c u show ?thesis by (cases "ups = []") auto
  qed
qed

lemma describeImage_success:
  assumes "describeImage env reader sdk f config = (updates, Some (Inr description))"
  shows "description \<noteq> [] \<and> (updates = [] \<longrightarrow> description = ''No description generated.'')
     \<and> (updates \<noteq> [] \<longrightarrow> description = last updates)"
proof -
  from assms obtain gcs b chunks where
    s: "sdk \<lparr>cc_apiKey = trim (or_else (apiKey config) (getEnv env ''API_KEY'')),
               cc_baseUrl = (if truthy (baseUrl config) \<and> trim (the (baseUrl config)) \<noteq> []
                             then Some (cleanBaseUrl (baseUrl config)) else None)\<rparr> = Client gcs"
    and r: "consume [] chunks = (updates, b)" "description = or_else (Some b) ''No description generated.''"
    by (auto simp: describeImage_def Let_def split: if_splits SdkClient.splits sum.splits
        SdkBehaviour.splits StreamEnd.splits prod.splits)
  from consume_final [OF r(1)] r(2) show ?thesis by (cases "updates = []") auto
qed


lemma analysis_success_items:
  assumes "tasks s h = Some (AwaitingAnalysis cur)"
  shows "items (run w s (analysisEvents h (updates, Some (Inr description)))) =
     map (\<lambda>item. if item_id item = item_id cur
                  then item\<lparr>status := GENERATING, originalPrompt := Some description\<rparr> else item) (items s)
   \<and> tasks (run w s (analysisEvents h (updates, Some (Inr description)))) h =
       Some (AwaitingGeneration cur description)"
  using assms
  by (simp add: run_def analysisEvents_def stream_updates streamed_def merge_def engine_defs comp_def
      cong: if_cong)

lemma generation_success_items:
  assumes "tasks s h = Some (AwaitingGeneration cur description)"
  shows "items (step w s (GenerationSettled h (Inr g))) =
     map (\<lambda>item. if item_id item = item_id cur
                  then item\<lparr>status := COMPLETED, generatedImageUrl := Some g\<rparr> else item) (items s)"
  using assms
  by (simp add: merge_def engine_defs comp_def cong: if_cong)

text \<open>
  C10: when \<open>describeImage\<close> succeeds, the description it returns is not empty: it is the
  placeholder \<open>No description generated.\<close> when the stream gave no text, and the last text
  handed to the callback otherwise. The driver writes that description to the item in
  flight when the analysis settles, and the item still has it when the generation has
  succeeded and the item is \<open>COMPLETED\<close>.
\<close>

theorem description_never_empty:
  assumes "describeImage env reader sdk (item_file cur) (analysisConfig (settings s)) =
             (updates, Some (Inr description))"
    and "tasks s h = Some (AwaitingAnalysis cur)"
  shows "description \<noteq> []
     \<and> (updates = [] \<longrightarrow> description = ''No description generated.'')
     \<and> (updates \<noteq> [] \<longrightarrow> description = last updates)
     \<and> items (run w s (analysisEvents h (updates, Some (Inr description)))) =
         map (\<lambda>item. if item_id item = item_id cur
                      then item\<lparr>status := GENERATING, originalPrompt := Some description\<rparr>
                      else item) (items s)
     \<and> items (run w s (analysisEvents h (updates, Some (Inr description)) @
                          generationEvents h (Some (Inr generatedImage)))) =
         map (\<lambda>item. if item_id item = item_id cur
                      then item\<lparr>status := COMPLETED, originalPrompt := Some description,
                             generatedImageUrl := Some generatedImage\<rparr>
                      else item) (items s)"
proof -
  note d = describeImage_success [OF assms(1)]
  note a = analysis_success_items [OF assms(2), of w updates description]
  let ?s1 = "run w s (analysisEvents h (updates, Some (Inr description)))"
  have "run w s (analysisEvents h (updates, Some (Inr description)) @
                          generationEvents h (Some (Inr generatedImage))) =
        step w ?s1 (GenerationSettled h (Inr generatedImage))"
    by (simp add: run_def generationEvents_def)
  then have g: "items (run w s (analysisEvents h (updates, Some (Inr description)) @
                          generationEvents h (Some (Inr generatedImage)))) =
         map (\<lambda>item. if item_id item = item_id cur
                      then item\<lparr>status := COMPLETED, originalPrompt := Some description,
                             generatedImageUrl := Some generatedImage\<rparr>
                      else item) (items s)"
    using a generation_success_items [of ?s1 h cur description w generatedImage]
    by (simp add: comp_def cong: if_cong)
  from d a g show ?thesis by (intro conjI) simp_all
qed


theorem description_never_empty_witness:
  "describeImage exampleEnv exampleReader (exampleSdk (Stream [None, Some []] StreamDone))
      (item_file (exampleItem ''a'' ''cat.png'' PENDING)) (analysisConfig (settings analyzingState)) =
     ([], Some (Inr ''No description generated.''))
   \<and> map originalPrompt (items (run exampleWorld analyzingState
        (analysisEvents 0 ([], Some (Inr ''No description generated.'')) @
         generationEvents 0 (Some (Inr ''https://img/1''))))) =
       [Some ''No description generated.'', None]"
proof -
  have r: "describeImage exampleEnv exampleReader (exampleSdk (Stream [None, Some []] StreamDone))
      (item_file (exampleItem ''a'' ''cat.png'' PENDING)) (analysisConfig (settings analyzingState)) =
     ([], Some (Inr ''No description generated.''))"
    by (simp add: describeImage_def example_keys DEFAULT_SETTINGS_def exampleSdk_def exampleReader_def
        fileToBase64_def analyzingState_def exampleState_def initialState_def)
  have t: "tasks analyzingState 0 = Some (AwaitingAnalysis (exampleItem ''a'' ''cat.png'' PENDING))"
    by (simp add: analyzingState_def)
  have i: "items analyzingState = [exampleItem ''a'' ''cat.png'' ANALYZING, exampleItem ''b'' ''dog.png'' PENDING]"
    by (simp add: analyzingState_def exampleState_def)
  from description_never_empty [OF r t, of exampleWorld "''https://img/1''"]
  have "map originalPrompt (items (run exampleWorld analyzingState
        (analysisEvents 0 ([], Some (Inr ''No description generated.'')) @
         generationEvents 0 (Some (Inr ''https://img/1''))))) =
       [Some ''No description generated.'', None]"
    by (simp add: i exampleItem_def)
  with r show ?thesis by (intro conjI)
qed


text \<open>
  C5: every stage call is bounded by a timeout. The generation call goes through
  \<open>fetchWithTimeout\<close>, which aborts a request that has not been answered after 120 seconds;
  the analysis call goes to the SDK with no timer around it. At the inputs below the
  request of the analysis, or its stream after a first chunk, never answers: the promise
  of \<open>describeImage\<close> never settles, no event reaches the driver, and the item stays
  \<open>ANALYZING\<close>. A \<open>fetch\<close> that never answers makes the generation call fail with the abort
  error; but the timer is cleared once the head of the response has arrived, so a body that
  never arrives leaves the generation call unsettled as well.
\<close>

theorem analysis_call_has_no_timeout:
  "describeImage exampleEnv exampleReader (exampleSdk RequestStalls)
      (exampleFile ''cat.png'') (analysisConfig DEFAULT_SETTINGS) = ([], None)
   \<and> describeImage exampleEnv exampleReader (exampleSdk (Stream [Some ''a''] StreamStalls))
      (exampleFile ''cat.png'') (analysisConfig DEFAULT_SETTINGS) = ([''a''], None)
   \<and> run exampleWorld analyzingState (analysisEvents 0 ([''a''], None)) =
       updateItem ''a'' (noUpdates\<lparr>p_originalPrompt := Some (Some ''a'')\<rparr>) analyzingState
   \<and> map status (items (run exampleWorld analyzingState (analysisEvents 0 ([''a''], None)))) =
       [ANALYZING, PENDING]
   \<and> generateVariation exampleEnv (\<lambda>request. Hangs) (\<lambda>errText. None) (exampleFile ''cat.png'') ''a cat''
      (generationConfig DEFAULT_SETTINGS) = Some (Inl (Error ''signal is aborted without reason''))
   \<and> generateVariation exampleEnv (\<lambda>request. Responds 10 (exampleResponse Unsettled)) (\<lambda>errText. None)
      (exampleFile ''cat.png'') ''a cat'' (generationConfig DEFAULT_SETTINGS) = None"
proof -
  have a: "describeImage exampleEnv exampleReader (exampleSdk RequestStalls)
      (exampleFile ''cat.png'') (analysisConfig DEFAULT_SETTINGS) = ([], None)"
    by (simp add: describeImage_def example_keys DEFAULT_SETTINGS_def exampleSdk_def exampleReader_def
        fileToBase64_def)
  have b: "describeImage exampleEnv exampleReader (exampleSdk (Stream [Some ''a''] StreamStalls))
      (exampleFile ''cat.png'') (analysisConfig DEFAULT_SETTINGS) = ([''a''], None)"
    by (simp add: describeImage_def example_keys DEFAULT_SETTINGS_def exampleSdk_def exampleReader_def
        fileToBase64_def)
  have c: "run exampleWorld analyzingState (analysisEvents 0 ([''a''], None)) =
       updateItem ''a'' (noUpdates\<lparr>p_originalPrompt := Some (Some ''a'')\<rparr>) analyzingState"
    by (simp add: run_def analysisEvents_def step_def onStreamUpdate_def analyzingState_def exampleItem_def)
  have d: "map status (items (run exampleWorld analyzingState (analysisEvents 0 ([''a''], None)))) =
       [ANALYZING, PENDING]"
    unfolding c by (simp add: items_updateItem analyzingState_def exampleState_def exampleItem_def noUpdates_def)
  have e: "generateVariation exampleEnv (\<lambda>request. Hangs) (\<lambda>errText. None) (exampleFile ''cat.png'') ''a cat''
      (generationConfig DEFAULT_SETTINGS) = Some (Inl (Error ''signal is aborted without reason''))"
    by (simp add: generateVariation_def example_keys DEFAULT_SETTINGS_def fetchWithTimeout_def rethrow_def
        exampleEnv_def getEnv_def)
  have f: "generateVariation exampleEnv (\<lambda>request. Responds 10 (exampleResponse Unsettled)) (\<lambda>errText. None)
      (exampleFile ''cat.png'') ''a cat'' (generationConfig DEFAULT_SETTINGS) = None"
    by (simp add: generateVariation_def example_keys DEFAULT_SETTINGS_def fetchWithTimeout_def
        exampleResponse_def)
  from a b c d e f show ?thesis by (intro conjI)
qed

section \<open>The invariant is kept\<close>

lemma flight_phase: "flight s h = Some (i, st) \<Longrightarrow> st = ANALYZING \<or> st = GENERATING"
  by (auto simp: flight_def split: option.splits Suspended.splits)

lemma ids_mono: "n \<le> n' \<Longrightarrow> randomId w ` {..<n} \<subseteq> randomId w ` {..<(n'::nat)}"
  by auto

lemma wf_shrink:
  assumes wf: "wellFormed w s"
    and it: "items s' = filter P (items s)"
    and fl: "\<forall>h. flight s' h = None \<or> flight s' h = flight s h"
    and n: "idCalls s \<le> idCalls s'"
  shows "wellFormed w s'"
proof -
  note sub = ids_mono [OF n, of w]
  have d: "distinct (map item_id (items s'))"
    using wf it by (simp add: wellFormed_def distinct_map_filter)
  have a: "\<forall>item \<in> set (items s'). item_id item \<in> randomId w ` {..<idCalls s'} \<and> exclusive item"
    using wf it sub by (auto simp: wellFormed_def)
  have b: "\<forall>h i st. flight s' h = Some (i, st) \<longrightarrow>
            i \<in> randomId w ` {..<idCalls s'}
            \<and> (\<forall>item \<in> set (items s'). item_id item = i \<longrightarrow> status item = st)"
  proof (intro allI impI)
    fix h i st assume f: "flight s' h = Some (i, st)"
    with fl have f0: "flight s h = Some (i, st)" by (metis option.distinct(1))
    with wf have "i \<in> randomId w ` {..<idCalls s}"
      "\<forall>item \<in> set (items s). item_id item = i \<longrightarrow> status item = st"
      unfolding wellFormed_def by blast+
    with sub it show "i \<in> randomId w ` {..<idCalls s'}
            \<and> (\<forall>item \<in> set (items s'). item_id item = i \<longrightarrow> status item = st)"
      by auto
  qed
  have c: "\<forall>h h' i st st'. flight s' h = Some (i, st) \<longrightarrow> flight s' h' = Some (i, st') \<longrightarrow> h = h'"
  proof (intro allI impI)
    fix h h' i st st' assume f: "flight s' h = Some (i, st)" "flight s' h' = Some (i, st')"
    with fl have "flight s h = Some (i, st)" "flight s h' = Some (i, st')" by (metis option.distinct(1))+
    with wf show "h = h'" unfolding wellFormed_def by blast
  qed
  from d a b c show ?thesis unfolding wellFormed_def by (intro conjI)
qed


lemma in_set_map_merge:
  "y \<in> set (map (\<lambda>item. if item_id item = i then merge item u else item) xs) \<Longrightarrow>
     (\<exists>x \<in> set xs. item_id x = i \<and> y = merge x u) \<or> (y \<in> set xs \<and> item_id y \<noteq> i)"
proof -
  assume "y \<in> set (map (\<lambda>item. if item_id item = i then merge item u else item) xs)"
  then obtain x where x: "x \<in> set xs" "y = (if item_id x = i then merge x u else x)" by auto
  show ?thesis
  proof (cases "item_id x = i")
    case True
    with x show ?thesis by auto
  next
    case False
    with x show ?thesis by auto
  qed
qed

lemma map_id_map_merge:
  "map item_id (map (\<lambda>item. if item_id item = i then merge item u else item) xs) = map item_id xs"
  by (induction xs) auto

lemma exclusive_in_flight:
  "exclusive x \<Longrightarrow> status x = ANALYZING \<or> status x = GENERATING \<or> status x = PENDING \<Longrightarrow>
     generatedImageUrl x = None \<and> error x = None"
  by (auto simp: exclusive_def)

lemma wf_update_free:
  assumes wf: "wellFormed w s"
    and it: "items s' = map (\<lambda>item. if item_id item = i then merge item u else item) (items s)"
    and free: "\<forall>h' st. Some h' \<noteq> ho \<longrightarrow> flight s h' \<noteq> Some (i, st)"
    and fl: "\<forall>h'. flight s' h' = (if Some h' = ho then F else flight s h')"
    and Fi: "\<forall>j st'. F = Some (j, st') \<longrightarrow> j = i \<and> i \<in> randomId w ` {..<idCalls s}"
    and ex: "\<forall>x \<in> set (items s). item_id x = i \<longrightarrow>
              exclusive (merge x u) \<and> (\<forall>st'. F = Some (i, st') \<longrightarrow> status (merge x u) = st')"
    and n: "idCalls s \<le> idCalls s'"
  shows "wellFormed w s'"
proof -
  note sub = ids_mono [OF n, of w]
  from wf have d0: "distinct (map item_id (items s))"
    and a0: "\<forall>item \<in> set (items s). item_id item \<in> randomId w ` {..<idCalls s} \<and> exclusive item"
    and b0: "\<forall>h i st. flight s h = Some (i, st) \<longrightarrow>
            i \<in> randomId w ` {..<idCalls s}
            \<and> (\<forall>item \<in> set (items s). item_id item = i \<longrightarrow> status item = st)"
    and c0: "\<forall>h h' i st st'. flight s h = Some (i, st) \<longrightarrow> flight s h' = Some (i, st') \<longrightarrow> h = h'"
    unfolding wellFormed_def by blast+
  have "map item_id (items s') = map item_id (items s)"
    unfolding it by (rule map_id_map_merge)
  with d0 have d: "distinct (map item_id (items s'))" by simp
  have a: "\<forall>item \<in> set (items s'). item_id item \<in> randomId w ` {..<idCalls s'} \<and> exclusive item"
  proof
    fix y assume "y \<in> set (items s')"
    then consider x where "x \<in> set (items s)" "item_id x = i" "y = merge x u"
      | "y \<in> set (items s)" "item_id y \<noteq> i"
      using in_set_map_merge [of y i u "items s"] it by auto
    then show "item_id y \<in> randomId w ` {..<idCalls s'} \<and> exclusive y"
    proof cases
      case 1
      with ex a0 sub show ?thesis by auto
    next
      case 2
      with a0 sub show ?thesis by auto
    qed
  qed
  have b: "\<forall>h' j st'. flight s' h' = Some (j, st') \<longrightarrow>
            j \<in> randomId w ` {..<idCalls s'}
            \<and> (\<forall>item \<in> set (items s'). item_id item = j \<longrightarrow> status item = st')"
  proof (intro allI impI)
    fix h' j st' assume g: "flight s' h' = Some (j, st')"
    show "j \<in> randomId w ` {..<idCalls s'}
            \<and> (\<forall>item \<in> set (items s'). item_id item = j \<longrightarrow> status item = st')"
    proof (cases "Some h' = ho")
      case True
      with g fl have F: "F = Some (j, st')" by simp
      with Fi have j: "j = i" "i \<in> randomId w ` {..<idCalls s}" by blast+
      have "\<forall>item \<in> set (items s'). item_id item = j \<longrightarrow> status item = st'"
      proof (intro ballI impI)
        fix y assume y: "y \<in> set (items s')" "item_id y = j"
        with j in_set_map_merge [of y i u "items s"] it
        obtain x where "x \<in> set (items s)" "item_id x = i" "y = merge x u" by auto
        with ex F j show "status y = st'" by auto
      qed
      with sub j show ?thesis by auto
    next
      case False
      with g fl have g0: "flight s h' = Some (j, st')" by simp
      with free False have ji: "j \<noteq> i" by blast
      from b0 g0 have r: "j \<in> randomId w ` {..<idCalls s}"
        "\<forall>item \<in> set (items s). item_id item = j \<longrightarrow> status item = st'" by blast+
      have "\<forall>item \<in> set (items s'). item_id item = j \<longrightarrow> status item = st'"
      proof (intro ballI impI)
        fix y assume y: "y \<in> set (items s')" "item_id y = j"
        with ji in_set_map_merge [of y i u "items s"] it have "y \<in> set (items s)" by auto
        with r y show "status y = st'" by blast
      qed
      with r sub show ?thesis by auto
    qed
  qed
  have c: "\<forall>h1 h2 j a b. flight s' h1 = Some (j, a) \<longrightarrow> flight s' h2 = Some (j, b) \<longrightarrow> h1 = h2"
  proof (intro allI impI)
    fix h1 h2 j a b assume g: "flight s' h1 = Some (j, a)" "flight s' h2 = Some (j, b)"
    show "h1 = h2"
    proof (cases "Some h1 = ho")
      case h1: True
      show ?thesis
      proof (cases "Some h2 = ho")
        case True
        with h1 show ?thesis by (metis option.inject)
      next
        case False
        from h1 g fl Fi have "j = i" by auto
        moreover from False g fl have "flight s h2 = Some (j, b)" by simp
        ultimately show ?thesis using free False by blast
      qed
    next
      case n1: False
      show ?thesis
      proof (cases "Some h2 = ho")
        case True
        from True g fl Fi have "j = i" by auto
        moreover from n1 g fl have "flight s h1 = Some (j, a)" by simp
        ultimately show ?thesis using free n1 by blast
      next
        case False
        with n1 g fl have "flight s h1 = Some (j, a)" "flight s h2 = Some (j, b)" by simp_all
        with c0 show ?thesis by blast
      qed
    qed
  qed
  from d a b c show ?thesis unfolding wellFormed_def by (intro conjI)
qed

lemma wf_update:
  assumes wf: "wellFormed w s"
    and f: "flight s h = Some (i, st)"
    and it: "items s' = map (\<lambda>item. if item_id item = i then merge item u else item) (items s)"
    and fl: "\<forall>h'. flight s' h' = (if h' = h then F else flight s h')"
    and Fi: "\<forall>j st'. F = Some (j, st') \<longrightarrow> j = i"
    and ex: "\<forall>item. status item = st \<longrightarrow> generatedImageUrl item = None \<longrightarrow> error item = None \<longrightarrow>
              exclusive (merge item u) \<and> (\<forall>st'. F = Some (i, st') \<longrightarrow> status (merge item u) = st')"
    and n: "idCalls s \<le> idCalls s'"
  shows "wellFormed w s'"
proof (rule wf_update_free [OF wf it _ _ _ _ n, where ho = "Some h" and F = F])
  from wf have a0: "\<forall>item \<in> set (items s). item_id item \<in> randomId w ` {..<idCalls s} \<and> exclusive item"
    and b0: "\<forall>h i st. flight s h = Some (i, st) \<longrightarrow>
            i \<in> randomId w ` {..<idCalls s}
            \<and> (\<forall>item \<in> set (items s). item_id item = i \<longrightarrow> status item = st)"
    and c0: "\<forall>h h' i st st'. flight s h = Some (i, st) \<longrightarrow> flight s h' = Some (i, st') \<longrightarrow> h = h'"
    unfolding wellFormed_def by blast+
  from c0 f show "\<forall>h' st. Some h' \<noteq> Some h \<longrightarrow> flight s h' \<noteq> Some (i, st)" by blast
  from fl show "\<forall>h'. flight s' h' = (if Some h' = Some h then F else flight s h')" by simp
  from Fi b0 f show "\<forall>j st'. F = Some (j, st') \<longrightarrow> j = i \<and> i \<in> randomId w ` {..<idCalls s}" by blast
  show "\<forall>x \<in> set (items s). item_id x = i \<longrightarrow>
              exclusive (merge x u) \<and> (\<forall>st'. F = Some (i, st') \<longrightarrow> status (merge x u) = st')"
  proof (intro ballI impI)
    fix x assume x: "x \<in> set (items s)" "item_id x = i"
    from b0 f x have sx: "status x = st" by blast
    from a0 x have "exclusive x" by blast
    with sx flight_phase [OF f] have "generatedImageUrl x = None \<and> error x = None"
      using exclusive_in_flight by blast
    with ex sx show "exclusive (merge x u) \<and> (\<forall>st'. F = Some (i, st') \<longrightarrow> status (merge x u) = st')"
      by blast
  qed
qed

lemma wf_pick:
  assumes wf: "wellFormed w s"
    and cur: "cur \<in> set (items s)" "status cur = PENDING"
    and it: "items s' = map (\<lambda>item. if item_id item = item_id cur then merge item u else item) (items s)"
    and fl: "\<forall>h'. flight s' h' = (if h' = h then Some (item_id cur, ANALYZING) else flight s h')"
    and ex: "\<forall>item. exclusive item \<longrightarrow> status item = PENDING \<longrightarrow>
               exclusive (merge item u) \<and> status (merge item u) = ANALYZING"
    and n: "idCalls s \<le> idCalls s'"
  shows "wellFormed w s'"
proof (rule wf_update_free [OF wf it _ _ _ _ n, where ho = "Some h" and F = "Some (item_id cur, ANALYZING)"])
  from wf have d0: "distinct (map item_id (items s))"
    and a0: "\<forall>item \<in> set (items s). item_id item \<in> randomId w ` {..<idCalls s} \<and> exclusive item"
    and b0: "\<forall>h i st. flight s h = Some (i, st) \<longrightarrow>
            i \<in> randomId w ` {..<idCalls s}
            \<and> (\<forall>item \<in> set (items s). item_id item = i \<longrightarrow> status item = st)"
    unfolding wellFormed_def by blast+
  show "\<forall>h' st. Some h' \<noteq> Some h \<longrightarrow> flight s h' \<noteq> Some (item_id cur, st)"
  proof (intro allI impI notI)
    fix h' st assume g: "flight s h' = Some (item_id cur, st)"
    with b0 cur have "status cur = st" by blast
    with flight_phase [OF g] cur(2) show False by auto
  qed
  from fl show "\<forall>h'. flight s' h' = (if Some h' = Some h then Some (item_id cur, ANALYZING) else flight s h')"
    by simp
  from a0 cur show "\<forall>j st'. Some (item_id cur, ANALYZING) = Some (j, st') \<longrightarrow>
      j = item_id cur \<and> item_id cur \<in> randomId w ` {..<idCalls s}" by auto
  show "\<forall>x \<in> set (items s). item_id x = item_id cur \<longrightarrow>
      exclusive (merge x u) \<and>
      (\<forall>st'. Some (item_id cur, ANALYZING) = Some (item_id cur, st') \<longrightarrow> status (merge x u) = st')"
  proof (intro ballI impI)
    fix x assume x: "x \<in> set (items s)" "item_id x = item_id cur"
    with d0 cur have "x = cur" by (meson distinct_map inj_onD)
    with a0 cur ex show "exclusive (merge x u) \<and>
      (\<forall>st'. Some (item_id cur, ANALYZING) = Some (item_id cur, st') \<longrightarrow> status (merge x u) = st')"
      by auto
  qed
qed

lemma wf_retry:
  assumes wf: "wellFormed w s"
    and x0: "x0 \<in> set (items s)" "item_id x0 = i" "status x0 = ERROR"
    and it: "items s' = map (\<lambda>item. if item_id item = i then merge item u else item) (items s)"
    and fl: "\<forall>h'. flight s' h' = flight s h'"
    and ex: "\<forall>item. exclusive (merge item u)"
    and n: "idCalls s \<le> idCalls s'"
  shows "wellFormed w s'"
proof (rule wf_update_free [OF wf it _ _ _ _ n, where ho = None and F = None])
  from wf have b0: "\<forall>h i st. flight s h = Some (i, st) \<longrightarrow>
            i \<in> randomId w ` {..<idCalls s}
            \<and> (\<forall>item \<in> set (items s). item_id item = i \<longrightarrow> status item = st)"
    unfolding wellFormed_def by blast
  show "\<forall>h' st. Some h' \<noteq> None \<longrightarrow> flight s h' \<noteq> Some (i, st)"
  proof (intro allI impI notI)
    fix h' st assume g: "flight s h' = Some (i, st)"
    with b0 x0 have "status x0 = st" by blast
    with flight_phase [OF g] x0(3) show False by auto
  qed
  from fl show "\<forall>h'. flight s' h' = (if Some h' = None then None else flight s h')" by simp
  show "\<forall>j st'. None = Some (j, st') \<longrightarrow> j = i \<and> i \<in> randomId w ` {..<idCalls s}" by simp
  from ex show "\<forall>x \<in> set (items s). item_id x = i \<longrightarrow>
      exclusive (merge x u) \<and> (\<forall>st'. None = Some (i, st') \<longrightarrow> status (merge x u) = st')" by simp
qed


lemma new_item_ids:
  "map item_id (map (\<lambda>(k, f). newItem w s k f) (enumerate n files)) =
     map (\<lambda>k. randomId w (idCalls s + k)) [n..<n + length files]"
proof (induction files arbitrary: n)
  case Nil
  show ?case by simp
next
  case (Cons f files)
  have "n < n + length (f # files)" by simp
  then have "[n..<n + length (f # files)] = n # [Suc n..<n + length (f # files)]"
    by (rule upt_conv_Cons)
  then have "[n..<n + length (f # files)] = n # [Suc n..<Suc n + length files]"
    by simp
  with Cons [of "Suc n"] show ?case by (simp add: newItem_def)
qed

lemma new_item_clean:
  "y \<in> set (map (\<lambda>(k, f). newItem w s k f) (enumerate n files)) \<Longrightarrow>
     status y = PENDING \<and> generatedImageUrl y = None \<and> error y = None"
  by (induction files arbitrary: n) (auto simp: newItem_def)

lemma wf_add:
  assumes inj: "inj (randomId w)"
    and wf: "wellFormed w s"
    and it: "items s' = items s @ map (\<lambda>(k, f). newItem w s k f) (enumerate 0 files)"
    and fl: "\<forall>h. flight s' h = flight s h"
    and n: "idCalls s + length files \<le> idCalls s'"
  shows "wellFormed w s'"
proof -
  let ?new = "map (\<lambda>(k, f). newItem w s k f) (enumerate 0 files)"
  from n have n0: "idCalls s \<le> idCalls s'" by simp
  note sub = ids_mono [OF n0, of w]
  from wf have d0: "distinct (map item_id (items s))"
    and a0: "\<forall>item \<in> set (items s). item_id item \<in> randomId w ` {..<idCalls s} \<and> exclusive item"
    and b0: "\<forall>h i st. flight s h = Some (i, st) \<longrightarrow>
            i \<in> randomId w ` {..<idCalls s}
            \<and> (\<forall>item \<in> set (items s). item_id item = i \<longrightarrow> status item = st)"
    and c0: "\<forall>h h' i st st'. flight s h = Some (i, st) \<longrightarrow> flight s h' = Some (i, st') \<longrightarrow> h = h'"
    unfolding wellFormed_def by blast+
  have ids: "map item_id ?new = map (\<lambda>k. randomId w (idCalls s + k)) [0..<length files]"
    using new_item_ids [of w s 0 files] by simp
  have newid: "\<exists>k < length files. item_id y = randomId w (idCalls s + k)" if "y \<in> set ?new" for y
  proof -
    from that have "item_id y \<in> set (map item_id ?new)" by (simp del: map_map)
    then show ?thesis unfolding ids by auto
  qed
  have fresh: "item_id y \<notin> randomId w ` {..<idCalls s}" if "y \<in> set ?new" for y
  proof
    assume "item_id y \<in> randomId w ` {..<idCalls s}"
    then obtain m where m: "m < idCalls s" "item_id y = randomId w m" by auto
    from newid [OF that] obtain k where "item_id y = randomId w (idCalls s + k)" by blast
    with m inj have "m = idCalls s + k" by (metis injD)
    with m show False by simp
  qed
  have dn: "distinct (map item_id ?new)"
  proof -
    have "inj_on (\<lambda>k. randomId w (idCalls s + k)) (set [0..<length files])"
    proof (rule inj_onI)
      fix x y assume "randomId w (idCalls s + x) = randomId w (idCalls s + y)"
      with inj have "idCalls s + x = idCalls s + y" by (rule injD)
      then show "x = y" by simp
    qed
    then show ?thesis unfolding ids by (simp add: distinct_map)
  qed
  have dis: "set (map item_id (items s)) \<inter> set (map item_id ?new) = {}"
  proof (rule ccontr)
    assume "set (map item_id (items s)) \<inter> set (map item_id ?new) \<noteq> {}"
    then obtain j where j: "j \<in> set (map item_id (items s))" "j \<in> set (map item_id ?new)" by blast
    from j(1) a0 have "j \<in> randomId w ` {..<idCalls s}" by auto
    moreover from j(2) obtain y where "y \<in> set ?new" "item_id y = j"
      by (auto simp del: map_map)
    ultimately show False using fresh [of y] by simp
  qed
  have "map item_id (items s') = map item_id (items s) @ map item_id ?new"
    unfolding it by (rule map_append)
  with d0 dn dis have d: "distinct (map item_id (items s'))"
    by (simp only: distinct_append simp_thms)
  have a: "\<forall>item \<in> set (items s'). item_id item \<in> randomId w ` {..<idCalls s'} \<and> exclusive item"
  proof
    fix y assume "y \<in> set (items s')"
    with it consider "y \<in> set (items s)" | "y \<in> set ?new" by auto
    then show "item_id y \<in> randomId w ` {..<idCalls s'} \<and> exclusive y"
    proof cases
      case 1
      with a0 sub show ?thesis by auto
    next
      case 2
      from newid [OF 2] obtain k where k: "k < length files" "item_id y = randomId w (idCalls s + k)"
        by blast
      with n have "idCalls s + k < idCalls s'" by simp
      with k have "item_id y \<in> randomId w ` {..<idCalls s'}" by blast
      with new_item_clean [OF 2] show ?thesis by (simp add: exclusive_def)
    qed
  qed
  have b: "\<forall>h i st. flight s' h = Some (i, st) \<longrightarrow>
            i \<in> randomId w ` {..<idCalls s'}
            \<and> (\<forall>item \<in> set (items s'). item_id item = i \<longrightarrow> status item = st)"
  proof (intro allI impI)
    fix h i st assume "flight s' h = Some (i, st)"
    with fl have g: "flight s h = Some (i, st)" by simp
    with b0 have r: "i \<in> randomId w ` {..<idCalls s}"
      "\<forall>item \<in> set (items s). item_id item = i \<longrightarrow> status item = st" by blast+
    have "\<forall>item \<in> set (items s'). item_id item = i \<longrightarrow> status item = st"
    proof (intro ballI impI)
      fix y assume y: "y \<in> set (items s')" "item_id y = i"
      with it fresh [of y] r(1) have "y \<in> set (items s)" by auto
      with r y show "status y = st" by blast
    qed
    with r sub show "i \<in> randomId w ` {..<idCalls s'}
            \<and> (\<forall>item \<in> set (items s'). item_id item = i \<longrightarrow> status item = st)" by auto
  qed
  have c: "\<forall>h h' i st st'. flight s' h = Some (i, st) \<longrightarrow> flight s' h' = Some (i, st') \<longrightarrow> h = h'"
    using c0 fl by simp
  from d a b c show ?thesis unfolding wellFormed_def by (intro conjI)
qed


lemma wf_frame:
  assumes "wellFormed w s" "items s' = items s" "tasks s' = tasks s" "idCalls s \<le> idCalls s'"
  shows "wellFormed w s'"
proof (rule wf_shrink [OF assms(1) _ _ assms(4), where P = "\<lambda>_. True"])
  from assms(2) show "items s' = filter (\<lambda>_. True) (items s)" by simp
  from assms(3) show "\<forall>h. flight s' h = None \<or> flight s' h = flight s h" by (simp add: flight_def)
qed

lemma wf_addLog: "wellFormed w s \<Longrightarrow> wellFormed w (addLog w ty msg det s)"
  by (rule wf_frame [where s = s]) (simp_all add: addLog_def)

lemma tasks_addLog [simp]: "tasks (addLog w ty msg det s) = tasks s"
  by (simp add: addLog_def)

lemma flight_addLog [simp]: "flight (addLog w ty msg det s) = flight s"
  by (rule ext) (simp add: flight_def addLog_def)

lemma flight_updateItem [simp]: "flight (updateItem i u s) = flight s"
  by (rule ext) (simp add: flight_def)

lemma idCalls_updateItem [simp]: "idCalls (updateItem i u s) = idCalls s"
  by (simp add: updateItem_def)

lemma idCalls_addLog [simp]: "idCalls (addLog w ty msg det s) = Suc (idCalls s)"
  by (simp add: addLog_def)

lemma flight_tasks_upd:
  "flight (s\<lparr>tasks := (tasks s)(h := t)\<rparr>) h' =
     (if h' = h then (case t of
        Some (AwaitingAnalysis currentItem) \<Rightarrow> Some (item_id currentItem, ANALYZING)
      | Some (AwaitingGeneration currentItem description) \<Rightarrow> Some (item_id currentItem, GENERATING)
      | _ \<Rightarrow> None) else flight s h')"
  by (simp add: flight_def)

lemma wf_finishQueue: "wellFormed w s \<Longrightarrow> wellFormed w (finishQueue w h s)"
proof (rule wf_shrink [where s = s and P = "\<lambda>_. True"])
  show "items (finishQueue w h s) = filter (\<lambda>_. True) (items s)" by (simp add: finishQueue_def)
  show "\<forall>h'. flight (finishQueue w h s) h' = None \<or> flight (finishQueue w h s) h' = flight s h'"
    by (simp add: finishQueue_def flight_def)
  show "idCalls s \<le> idCalls (finishQueue w h s)" by (simp add: finishQueue_def)
qed

lemma wf_beginItem:
  assumes "wellFormed w s" "cur \<in> set (items s)" "status cur = PENDING"
  shows "wellFormed w (beginItem w h cur s)"
proof (rule wf_pick [OF assms, where h = h
      and u = "noUpdates\<lparr>p_status := Some ANALYZING, p_originalPrompt := Some (Some [])\<rparr>"])
  show "items (beginItem w h cur s) =
      map (\<lambda>item. if item_id item = item_id cur
                   then merge item (noUpdates\<lparr>p_status := Some ANALYZING, p_originalPrompt := Some (Some [])\<rparr>)
                   else item) (items s)"
    by (simp add: beginItem_def Let_def items_updateItem)
  show "\<forall>h'. flight (beginItem w h cur s) h' =
      (if h' = h then Some (item_id cur, ANALYZING) else flight s h')"
    by (simp add: beginItem_def Let_def flight_def)
  show "\<forall>item. exclusive item \<longrightarrow> status item = PENDING \<longrightarrow>
      exclusive (merge item (noUpdates\<lparr>p_status := Some ANALYZING, p_originalPrompt := Some (Some [])\<rparr>))
      \<and> status (merge item (noUpdates\<lparr>p_status := Some ANALYZING, p_originalPrompt := Some (Some [])\<rparr>)) = ANALYZING"
  proof (intro allI impI)
    fix item assume "exclusive item" "status item = PENDING"
    with exclusive_in_flight [of item] have "generatedImageUrl item = None \<and> error item = None" by simp
    then show "exclusive (merge item (noUpdates\<lparr>p_status := Some ANALYZING, p_originalPrompt := Some (Some [])\<rparr>))
      \<and> status (merge item (noUpdates\<lparr>p_status := Some ANALYZING, p_originalPrompt := Some (Some [])\<rparr>)) = ANALYZING"
      by (simp add: exclusive_def noUpdates_def)
  qed
  show "idCalls s \<le> idCalls (beginItem w h cur s)" by (simp add: beginItem_def Let_def)
qed

lemma wf_loopHead: "wellFormed w s \<Longrightarrow> wellFormed w (loopHead w h s)"
proof -
  assume wf: "wellFormed w s"
  show ?thesis
  proof (cases "findIndex isPending (items s)")
    case None
    with wf show ?thesis by (simp add: loopHead_def wf_finishQueue)
  next
    case (Some k)
    from findIndex_Some [OF Some] have "items s ! k \<in> set (items s)" "status (items s ! k) = PENDING"
      by (simp_all add: isPending_def)
    with wf Some show ?thesis by (simp add: loopHead_def wf_finishQueue wf_beginItem)
  qed
qed

lemma wf_processQueue: "wellFormed w s \<Longrightarrow> wellFormed w (processQueue w s)"
proof -
  assume wf: "wellFormed w s"
  have "wellFormed w (addLog w LogInfo ''Queue processing started.'' None
                (s\<lparr>isProcessingRef := True, isProcessing := True, nextTask := Suc (nextTask s)\<rparr>))"
    by (rule wf_frame [OF wf]) (simp_all add: addLog_def)
  with wf show ?thesis by (simp add: processQueue_def wf_loopHead)
qed


lemma flight_of_task:
  "tasks s h = Some (AwaitingAnalysis cur) \<Longrightarrow> flight s h = Some (item_id cur, ANALYZING)"
  "tasks s h = Some (AwaitingGeneration cur d) \<Longrightarrow> flight s h = Some (item_id cur, GENERATING)"
  by (simp_all add: flight_def)

lemma wf_onStreamUpdate: "wellFormed w s \<Longrightarrow> wellFormed w (onStreamUpdate h partialText s)"
proof -
  assume wf: "wellFormed w s"
  show ?thesis
  proof (cases "\<exists>cur. tasks s h = Some (AwaitingAnalysis cur)")
    case False
    with wf show ?thesis
      by (auto simp: onStreamUpdate_def split: option.splits Suspended.splits)
  next
    case True
    then obtain cur where t: "tasks s h = Some (AwaitingAnalysis cur)" by blast
    let ?u = "noUpdates\<lparr>p_originalPrompt := Some (Some partialText)\<rparr>"
    have "wellFormed w (updateItem (item_id cur) ?u s)"
    proof (rule wf_update [OF wf flight_of_task(1) [OF t], where u = ?u
          and F = "Some (item_id cur, ANALYZING)"])
      show "items (updateItem (item_id cur) ?u s) =
          map (\<lambda>item. if item_id item = item_id cur then merge item ?u else item) (items s)"
        by (rule items_updateItem)
      show "\<forall>h'. flight (updateItem (item_id cur) ?u s) h' =
          (if h' = h then Some (item_id cur, ANALYZING) else flight s h')"
        using flight_of_task(1) [OF t] by simp
      show "\<forall>j st'. Some (item_id cur, ANALYZING) = Some (j, st') \<longrightarrow> j = item_id cur" by simp
      show "\<forall>item. status item = ANALYZING \<longrightarrow> generatedImageUrl item = None \<longrightarrow> error item = None \<longrightarrow>
          exclusive (merge item ?u) \<and>
          (\<forall>st'. Some (item_id cur, ANALYZING) = Some (item_id cur, st') \<longrightarrow> status (merge item ?u) = st')"
        by (simp add: exclusive_def noUpdates_def)
      show "idCalls s \<le> idCalls (updateItem (item_id cur) ?u s)" by simp
    qed
    with t show ?thesis by (simp add: onStreamUpdate_def)
  qed
qed

lemma wf_catchBlock:
  assumes wf: "wellFormed w s" and f: "flight s h = Some (item_id cur, st)"
  shows "wellFormed w (catchBlock w h cur err s)"
proof -
  let ?u = "noUpdates\<lparr>p_status := Some ERROR,
      p_error := Some (Some (or_else (thrown_message err) ''Unknown error occurred''))\<rparr>"
  show ?thesis
  proof (rule wf_update [OF wf f, where u = ?u and F = None])
    show "items (catchBlock w h cur err s) =
        map (\<lambda>item. if item_id item = item_id cur then merge item ?u else item) (items s)"
      by (simp add: catchBlock_def Let_def items_updateItem)
    show "\<forall>h'. flight (catchBlock w h cur err s) h' = (if h' = h then None else flight s h')"
      by (simp add: catchBlock_def Let_def flight_def)
    show "\<forall>j st'. None = Some (j, st') \<longrightarrow> j = item_id cur" by simp
    show "\<forall>item. status item = st \<longrightarrow> generatedImageUrl item = None \<longrightarrow> error item = None \<longrightarrow>
        exclusive (merge item ?u) \<and> (\<forall>st'. None = Some (item_id cur, st') \<longrightarrow> status (merge item ?u) = st')"
      by (simp add: exclusive_def noUpdates_def)
    show "idCalls s \<le> idCalls (catchBlock w h cur err s)" by (simp add: catchBlock_def Let_def)
  qed
qed

lemma wf_analysisSettled: "wellFormed w s \<Longrightarrow> wellFormed w (analysisSettled w h r s)"
proof -
  assume wf: "wellFormed w s"
  show ?thesis
  proof (cases "\<exists>cur. tasks s h = Some (AwaitingAnalysis cur)")
    case False
    with wf show ?thesis
      by (auto simp: analysisSettled_def split: option.splits Suspended.splits)
  next
    case True
    then obtain cur where t: "tasks s h = Some (AwaitingAnalysis cur)" by blast
    note f = flight_of_task(1) [OF t]
    show ?thesis
    proof (cases r)
      case (Inl err)
      with t wf_catchBlock [OF wf f] show ?thesis by (simp add: analysisSettled_def)
    next
      case (Inr description)
      let ?u1 = "noUpdates\<lparr>p_originalPrompt := Some (Some description)\<rparr>"
      let ?u2 = "noUpdates\<lparr>p_status := Some GENERATING\<rparr>"
      let ?s2 = "addLog w LogSuccess ''[Step 1] Analysis complete.'' None (updateItem (item_id cur) ?u1 s)"
      have "wellFormed w (updateItem (item_id cur) ?u1 s)"
        using wf_onStreamUpdate [OF wf, of h description] t by (simp add: onStreamUpdate_def)
      then have wf2: "wellFormed w ?s2" by (rule wf_addLog)
      have f2: "flight ?s2 h = Some (item_id cur, ANALYZING)" using f by simp
      have "wellFormed w (analysisSettled w h (Inr description) s)"
      proof (rule wf_update [OF wf2 f2, where u = ?u2 and F = "Some (item_id cur, GENERATING)"])
        show "items (analysisSettled w h (Inr description) s) =
            map (\<lambda>item. if item_id item = item_id cur then merge item ?u2 else item) (items ?s2)"
          using t by (simp add: analysisSettled_def Let_def items_updateItem)
        show "\<forall>h'. flight (analysisSettled w h (Inr description) s) h' =
            (if h' = h then Some (item_id cur, GENERATING) else flight ?s2 h')"
          using t by (simp add: analysisSettled_def Let_def flight_def)
        show "\<forall>j st'. Some (item_id cur, GENERATING) = Some (j, st') \<longrightarrow> j = item_id cur" by simp
        show "\<forall>item. status item = ANALYZING \<longrightarrow> generatedImageUrl item = None \<longrightarrow> error item = None \<longrightarrow>
            exclusive (merge item ?u2) \<and>
            (\<forall>st'. Some (item_id cur, GENERATING) = Some (item_id cur, st') \<longrightarrow>
               status (merge item ?u2) = st')"
          by (simp add: exclusive_def noUpdates_def)
        show "idCalls ?s2 \<le> idCalls (analysisSettled w h (Inr description) s)"
          using t by (simp add: analysisSettled_def Let_def)
      qed
      with Inr show ?thesis by simp
    qed
  qed
qed

lemma wf_generationSettled: "wellFormed w s \<Longrightarrow> wellFormed w (generationSettled w h r s)"
proof -
  assume wf: "wellFormed w s"
  show ?thesis
  proof (cases "\<exists>cur d. tasks s h = Some (AwaitingGeneration cur d)")
    case False
    with wf show ?thesis
      by (auto simp: generationSettled_def split: option.splits Suspended.splits)
  next
    case True
    then obtain cur d where t: "tasks s h = Some (AwaitingGeneration cur d)" by blast
    note f = flight_of_task(2) [OF t]
    show ?thesis
    proof (cases r)
      case (Inl err)
      with t wf_catchBlock [OF wf f] show ?thesis by (simp add: generationSettled_def)
    next
      case (Inr generatedImage)
      let ?u = "noUpdates\<lparr>p_status := Some COMPLETED, p_generatedImageUrl := Some (Some generatedImage)\<rparr>"
      have "wellFormed w (generationSettled w h (Inr generatedImage) s)"
      proof (rule wf_update [OF wf f, where u = ?u and F = None])
        show "items (generationSettled w h (Inr generatedImage) s) =
            map (\<lambda>item. if item_id item = item_id cur then merge item ?u else item) (items s)"
          using t by (simp add: generationSettled_def Let_def items_updateItem)
        show "\<forall>h'. flight (generationSettled w h (Inr generatedImage) s) h' =
            (if h' = h then None else flight s h')"
          using t by (simp add: generationSettled_def Let_def flight_def)
        show "\<forall>j st'. None = Some (j, st') \<longrightarrow> j = item_id cur" by simp
        show "\<forall>item. status item = GENERATING \<longrightarrow> generatedImageUrl item = None \<longrightarrow> error item = None \<longrightarrow>
            exclusive (merge item ?u) \<and>
            (\<forall>st'. None = Some (item_id cur, st') \<longrightarrow> status (merge item ?u) = st')"
          by (simp add: exclusive_def noUpdates_def)
        show "idCalls s \<le> idCalls (generationSettled w h (Inr generatedImage) s)"
          using t by (simp add: generationSettled_def Let_def)
      qed
      with Inr show ?thesis by simp
    qed
  qed
qed

lemma wf_delayElapsed: "wellFormed w s \<Longrightarrow> wellFormed w (delayElapsed w h s)"
  by (auto simp: delayElapsed_def wf_loopHead split: option.splits Suspended.splits)


lemma wf_handleFilesSelected:
  assumes "inj (randomId w)" "wellFormed w s"
  shows "wellFormed w (handleFilesSelected w files s)"
proof (rule wf_add [OF assms, where files = files])
  show "items (handleFilesSelected w files s) =
      items s @ map (\<lambda>(k, f). newItem w s k f) (enumerate 0 files)"
    by (simp add: handleFilesSelected_def Let_def)
  show "\<forall>h. flight (handleFilesSelected w files s) h = flight s h"
    by (simp add: handleFilesSelected_def Let_def flight_def)
  show "idCalls s + length files \<le> idCalls (handleFilesSelected w files s)"
    by (simp add: handleFilesSelected_def Let_def)
qed

lemma wf_handleRetryItem:
  assumes wf: "wellFormed w s" and off: "offered (RetryClicked i) s"
  shows "wellFormed w (handleRetryItem w i s)"
proof -
  from off obtain x0 where x0: "x0 \<in> set (items s)" "item_id x0 = i" "status x0 = ERROR"
    by (auto simp: showsRetry_def)
  let ?u = "noUpdates\<lparr>p_status := Some PENDING, p_error := Some None,
             p_generatedImageUrl := Some None, p_originalPrompt := Some None,
             p_progressLog := Some [''Retrying...'']\<rparr>"
  show ?thesis
  proof (rule wf_retry [OF wf x0, where u = ?u])
    show "items (handleRetryItem w i s) =
        map (\<lambda>item. if item_id item = i then merge item ?u else item) (items s)"
      by (simp add: handleRetryItem_def items_updateItem)
    show "\<forall>h'. flight (handleRetryItem w i s) h' = flight s h'"
      by (simp add: handleRetryItem_def)
    show "\<forall>item. exclusive (merge item ?u)"
      by (simp add: exclusive_def noUpdates_def)
    show "idCalls s \<le> idCalls (handleRetryItem w i s)"
      by (simp add: handleRetryItem_def)
  qed
qed

lemma wf_handleRemoveItem: "wellFormed w s \<Longrightarrow> wellFormed w (handleRemoveItem i s)"
  by (rule wf_shrink [where s = s and P = "\<lambda>item. item_id item \<noteq> i"])
     (simp_all add: handleRemoveItem_def flight_def)

lemma wf_clearCompleted: "wellFormed w s \<Longrightarrow> wellFormed w (clearCompleted w s)"
proof (cases "isProcessing s")
  case True
  assume "wellFormed w s"
  with True show ?thesis by (simp add: clearCompleted_def)
next
  case False
  assume wf: "wellFormed w s"
  have "wellFormed w (addLog w LogInfo ''Cleared completed/error items.'' None
             (s\<lparr>items := filter (\<lambda>item. status item \<noteq> COMPLETED \<and> status item \<noteq> ERROR) (items s)\<rparr>))"
    by (rule wf_shrink [OF wf, where P = "\<lambda>item. status item \<noteq> COMPLETED \<and> status item \<noteq> ERROR"])
       (simp_all add: flight_def)
  with False show ?thesis by (simp add: clearCompleted_def)
qed

lemma wf_resetAll: "wellFormed w s \<Longrightarrow> wellFormed w (resetAll w s)"
proof (cases "isProcessing s")
  case True
  assume "wellFormed w s"
  with True show ?thesis by (simp add: resetAll_def)
next
  case False
  assume wf: "wellFormed w s"
  have "wellFormed w (addLog w LogWarning ''All items reset.'' None (s\<lparr>items := []\<rparr>))"
    by (rule wf_shrink [OF wf, where P = "\<lambda>item. False"]) (simp_all add: flight_def)
  with False show ?thesis by (simp add: resetAll_def)
qed

lemma wf_stopProcessing: "wellFormed w s \<Longrightarrow> wellFormed w (stopProcessing w s)"
  by (rule wf_frame [where s = s]) (simp_all add: stopProcessing_def addLog_def)

lemma wf_saveSettings: "wellFormed w s \<Longrightarrow> wellFormed w (saveSettings w newSettings s)"
  by (rule wf_frame [where s = s]) (simp_all add: saveSettings_def addLog_def)

lemma wf_handleAspectRatioChange:
  "wellFormed w s \<Longrightarrow> wellFormed w (handleAspectRatioChange w newRatio s)"
  by (rule wf_frame [where s = s]) (simp_all add: handleAspectRatioChange_def addLog_def)

lemma wf_step:
  assumes inj: "inj (randomId w)" and wf: "wellFormed w s"
  shows "wellFormed w (step w s e)"
proof (cases "offered e s")
  case False
  with wf show ?thesis by (simp add: step_def)
next
  case True
  have "wellFormed w (fire w e s)"
  proof (cases e)
    case (FilesSelected files)
    with wf_handleFilesSelected [OF inj wf] show ?thesis by simp
  next
    case (RetryClicked i)
    with wf_handleRetryItem [OF wf] True show ?thesis by simp
  next
    case (RemoveClicked i)
    with wf_handleRemoveItem [OF wf] show ?thesis by simp
  next
    case ResetAllClicked
    with wf_resetAll [OF wf] show ?thesis by simp
  next
    case ClearCompletedClicked
    with wf_clearCompleted [OF wf] show ?thesis by simp
  next
    case ExecuteClicked
    with wf_processQueue [OF wf] show ?thesis by simp
  next
    case StopClicked
    with wf_stopProcessing [OF wf] show ?thesis by simp
  next
    case (SettingsSaved newSettings)
    with wf_saveSettings [OF wf] show ?thesis by simp
  next
    case (AspectRatioChanged newRatio)
    with wf_handleAspectRatioChange [OF wf] show ?thesis by simp
  next
    case LogsCleared
    have "wellFormed w (s\<lparr>logs := []\<rparr>)" by (rule wf_frame [OF wf]) simp_all
    with LogsCleared show ?thesis by simp
  next
    case (StreamUpdate h partialText)
    with wf_onStreamUpdate [OF wf] show ?thesis by simp
  next
    case (AnalysisSettled h r)
    with wf_analysisSettled [OF wf] show ?thesis by simp
  next
    case (GenerationSettled h r)
    with wf_generationSettled [OF wf] show ?thesis by simp
  next
    case (DelayElapsed h)
    with wf_delayElapsed [OF wf] show ?thesis by simp
  qed
  with True show ?thesis by (simp add: step_def)
qed

lemma wf_initialState: "wellFormed w initialState"
  by (simp add: wellFormed_def initialState_def flight_def)

lemma wf_run: "inj (randomId w) \<Longrightarrow> wellFormed w s \<Longrightarrow> wellFormed w (run w s es)"
proof (induction es arbitrary: s)
  case Nil
  then show ?case by (simp add: run_def)
next
  case (Cons e es)
  from Cons.IH [OF Cons.prems(1) wf_step [OF Cons.prems, of e]] show ?case by (simp add: run_def)
qed


text \<open>
  C8: the ids that \<open>generateId\<close> gives out are taken to be distinct. Then the state with
  which the component starts is well formed, every event (every click that the view
  offers, every callback and every settling of a stage call) leads from a well-formed
  state to a well-formed state, and in a well-formed state every item satisfies the
  invariant: \<open>generatedImageUrl\<close> is present only when the status is \<open>COMPLETED\<close>, \<open>error\<close>
  only when it is \<open>ERROR\<close>, never both. So every item of every reachable state does.
\<close>

theorem result_error_exclusive:
  assumes "inj (randomId w)"
  shows "wellFormed w initialState
     \<and> (\<forall>s e. wellFormed w s \<longrightarrow> wellFormed w (step w s e))
     \<and> (\<forall>s. wellFormed w s \<longrightarrow> (\<forall>item \<in> set (items s). exclusive item))
     \<and> (\<forall>es. \<forall>item \<in> set (items (run w initialState es)). exclusive item)"
proof -
  have a: "\<forall>s e. wellFormed w s \<longrightarrow> wellFormed w (step w s e)"
    using wf_step [OF assms] by blast
  have b: "\<forall>s. wellFormed w s \<longrightarrow> (\<forall>item \<in> set (items s). exclusive item)"
    unfolding wellFormed_def by blast
  have c: "\<forall>es. \<forall>item \<in> set (items (run w initialState es)). exclusive item"
    using b wf_run [OF assms wf_initialState] by blast
  from wf_initialState a b c show ?thesis by (intro conjI)
qed

lemma exampleWorld_inj: "inj (randomId exampleWorld)"
  by (rule injI) (simp add: exampleWorld_def)

theorem result_error_exclusive_witness:
  "inj (randomId exampleWorld)
   \<and> map item_id (items (run exampleWorld initialState exampleSession)) = [''id'', ''idx'']
   \<and> map status (items (run exampleWorld initialState exampleSession)) = [COMPLETED, PENDING]
   \<and> list_all exclusive (items (run exampleWorld initialState exampleSession))"
proof -
  have i: "map item_id (items (run exampleWorld initialState exampleSession)) = [''id'', ''idx'']"
    by (simp add: run_def exampleSession_def handleFilesSelected_def newItem_def exampleWorld_def
        initialState_def handleRetryItem_def showsRetry_def stream_updates onStreamUpdate_def merge_def
        enumerate_eq_zip engine_defs)
  have s: "map status (items (run exampleWorld initialState exampleSession)) = [COMPLETED, PENDING]"
    by (simp add: run_def exampleSession_def handleFilesSelected_def newItem_def exampleWorld_def
        initialState_def handleRetryItem_def showsRetry_def stream_updates onStreamUpdate_def merge_def
        enumerate_eq_zip engine_defs)
  have e: "list_all exclusive (items (run exampleWorld initialState exampleSession))"
    using result_error_exclusive [OF exampleWorld_inj] by (simp add: list_all_iff)
  from exampleWorld_inj i s e show ?thesis by (intro conjI)
qed

end
